theory Spec2Isabelle
  imports Complex_Main
begin

section \<open>Ball numbers\<close>

text \<open>
  The program computes with the real and complex balls of Sage (\<open>RealBall\<close>,
  \<open>ComplexBall\<close>): a real ball is a midpoint and a radius, a complex ball a pair of real
  balls.  The model keeps midpoint and radius as real numbers and computes each operation
  without rounding; the working precision of a ball field therefore plays no role here.
\<close>

datatype rball = RBall (bmid: real) (brad: real)

datatype cball = CBall (cre: rball) (cim: rball)

datatype error =
    IndexError
  | TypeError string
  | ValueError
  | NotImplementedError
  | AssertionError
  | Failure string

definition r_exact :: "real \<Rightarrow> rball" where
  "r_exact x = RBall x 0"

definition r_lower :: "rball \<Rightarrow> real" where
  "r_lower b = bmid b - brad b"

definition r_upper :: "rball \<Rightarrow> real" where
  "r_upper b = bmid b + brad b"

definition r_contains :: "rball \<Rightarrow> real \<Rightarrow> bool" where
  "r_contains b x = (\<bar>x - bmid b\<bar> \<le> brad b)"

definition r_of_interval :: "real \<Rightarrow> real \<Rightarrow> rball" where
  "r_of_interval lo hi = RBall ((lo + hi) / 2) ((hi - lo) / 2)"

definition r_add :: "rball \<Rightarrow> rball \<Rightarrow> rball" where
  "r_add a b = RBall (bmid a + bmid b) (brad a + brad b)"

definition r_sub :: "rball \<Rightarrow> rball \<Rightarrow> rball" where
  "r_sub a b = RBall (bmid a - bmid b) (brad a + brad b)"

definition r_mul :: "rball \<Rightarrow> rball \<Rightarrow> rball" where
  "r_mul a b = RBall (bmid a * bmid b) (\<bar>bmid a\<bar> * brad b + \<bar>bmid b\<bar> * brad a + brad a * brad b)"

text \<open>Division by a ball that contains zero gives a non-finite ball in the library; the
  model returns \<open>None\<close> for it.\<close>

definition r_inv :: "rball \<Rightarrow> rball option" where
  "r_inv b = (if 0 < r_lower b \<or> r_upper b < 0
              then Some (r_of_interval (1 / r_upper b) (1 / r_lower b)) else None)"

definition r_div :: "rball \<Rightarrow> rball \<Rightarrow> rball option" where
  "r_div a b = map_option (r_mul a) (r_inv b)"

text \<open>\<open>abs\<close> of a real ball keeps the radius and takes the absolute value of the midpoint.\<close>

definition r_abs :: "rball \<Rightarrow> rball" where
  "r_abs b = RBall \<bar>bmid b\<bar> (brad b)"

text \<open>\<open>b.add_error(e)\<close> adds the magnitude of \<open>e\<close> to the radius of \<open>b\<close>.\<close>

definition r_add_error :: "rball \<Rightarrow> rball \<Rightarrow> rball" where
  "r_add_error b e = RBall (bmid b) (brad b + \<bar>bmid e\<bar> + brad e)"

text \<open>\<open>b << k\<close> (and \<open>b >> k\<close>, which is \<open>b << -k\<close>).\<close>

definition r_shift :: "rball \<Rightarrow> int \<Rightarrow> rball" where
  "r_shift b k = RBall (bmid b * 2 powi k) (brad b * 2 powi k)"

definition r_min :: "rball \<Rightarrow> rball \<Rightarrow> rball" where
  "r_min a b = r_of_interval (min (r_lower a) (r_lower b)) (min (r_upper a) (r_upper b))"

definition squash :: "rball \<Rightarrow> rball" where
  "squash b = RBall (bmid b) 0"

text \<open>
  Modelled from the spec: \<open>safe_lt\<close> of the module \<open>safe_cmp\<close>, which is not among the
  sources.  The spec asks for conservative comparisons: a test returns true only when it
  holds for every pair of points of the two balls, and false otherwise (it never raises).
\<close>

definition safe_lt :: "rball \<Rightarrow> rball \<Rightarrow> bool" where
  "safe_lt a b = (r_upper a < r_lower b)"

text \<open>Modelled from the spec: \<open>safe_le\<close> of \<open>safe_cmp\<close>, conservative in the same way.\<close>

definition safe_le :: "rball \<Rightarrow> rball \<Rightarrow> bool" where
  "safe_le a b = (r_upper a \<le> r_lower b)"

text \<open>Modelled from the spec: \<open>safe_gt\<close> of \<open>safe_cmp\<close>, conservative in the same way.\<close>

definition safe_gt :: "rball \<Rightarrow> rball \<Rightarrow> bool" where
  "safe_gt a b = safe_lt b a"

text \<open>Modelled from the spec: \<open>safe_ge\<close> of \<open>safe_cmp\<close>, conservative in the same way.\<close>

definition safe_ge :: "rball \<Rightarrow> rball \<Rightarrow> bool" where
  "safe_ge a b = safe_le b a"

subsection \<open>Complex balls\<close>

definition c_of_real :: "rball \<Rightarrow> cball" where
  "c_of_real b = CBall b (r_exact 0)"

definition c_add :: "cball \<Rightarrow> cball \<Rightarrow> cball" where
  "c_add a b = CBall (r_add (cre a) (cre b)) (r_add (cim a) (cim b))"

definition c_sub :: "cball \<Rightarrow> cball \<Rightarrow> cball" where
  "c_sub a b = CBall (r_sub (cre a) (cre b)) (r_sub (cim a) (cim b))"

definition c_mul :: "cball \<Rightarrow> cball \<Rightarrow> cball" where
  "c_mul a b = CBall (r_sub (r_mul (cre a) (cre b)) (r_mul (cim a) (cim b)))
                     (r_add (r_mul (cre a) (cim b)) (r_mul (cim a) (cre b)))"

definition c_div :: "cball \<Rightarrow> cball \<Rightarrow> cball option" where
  "c_div a b =
     (if cim b = r_exact 0
      then (case (r_div (cre a) (cre b), r_div (cim a) (cre b)) of
              (Some x, Some y) \<Rightarrow> Some (CBall x y) | _ \<Rightarrow> None)
      else (let n = c_mul a (CBall (cre b) (r_sub (r_exact 0) (cim b)));
                d = r_add (r_mul (cre b) (cre b)) (r_mul (cim b) (cim b))
            in case (r_div (cre n) d, r_div (cim n) d) of
                 (Some x, Some y) \<Rightarrow> Some (CBall x y) | _ \<Rightarrow> None))"

definition r_minabs :: "rball \<Rightarrow> real" where
  "r_minabs b = max 0 (\<bar>bmid b\<bar> - brad b)"

definition r_maxabs :: "rball \<Rightarrow> real" where
  "r_maxabs b = \<bar>bmid b\<bar> + brad b"

text \<open>The modulus of a complex ball: the absolute value of the other part when one part is
  exactly zero, the enclosure of the hypotenuse otherwise.\<close>

definition c_abs :: "cball \<Rightarrow> rball" where
  "c_abs z =
     (if cim z = r_exact 0 then r_abs (cre z)
      else if cre z = r_exact 0 then r_abs (cim z)
      else r_of_interval (sqrt ((r_minabs (cre z))\<^sup>2 + (r_minabs (cim z))\<^sup>2))
                         (sqrt ((r_maxabs (cre z))\<^sup>2 + (r_maxabs (cim z))\<^sup>2)))"

text \<open>\<open>add_error\<close> of a complex ball enlarges the real and the imaginary part.\<close>

definition c_add_error :: "cball \<Rightarrow> rball \<Rightarrow> cball" where
  "c_add_error z e = CBall (r_add_error (cre z) e) (r_add_error (cim z) e)"

subsection \<open>Coefficient rings\<close>

text \<open>
  The economization functions work on polynomials over either ball field and reach the
  field through \<open>pol.base_ring()\<close>.  The model passes the operations of the field as a
  record.
\<close>

record 'a ballfield =
  bf_zero :: 'a
  bf_one :: 'a
  bf_of_int :: "int \<Rightarrow> 'a"
  bf_add :: "'a \<Rightarrow> 'a \<Rightarrow> 'a"
  bf_sub :: "'a \<Rightarrow> 'a \<Rightarrow> 'a"
  bf_mul :: "'a \<Rightarrow> 'a \<Rightarrow> 'a"
  bf_div :: "'a \<Rightarrow> 'a \<Rightarrow> 'a option"
  bf_abs :: "'a \<Rightarrow> rball"
  bf_add_error :: "'a \<Rightarrow> rball \<Rightarrow> 'a"
  bf_complex :: "'a \<Rightarrow> cball"

definition RBF :: "rball ballfield" where
  "RBF = \<lparr> bf_zero = r_exact 0, bf_one = r_exact 1, bf_of_int = (\<lambda>n. r_exact (of_int n)),
           bf_add = r_add, bf_sub = r_sub, bf_mul = r_mul, bf_div = r_div, bf_abs = r_abs,
           bf_add_error = r_add_error, bf_complex = c_of_real \<rparr>"

definition CBF :: "cball ballfield" where
  "CBF = \<lparr> bf_zero = c_of_real (r_exact 0), bf_one = c_of_real (r_exact 1),
           bf_of_int = (\<lambda>n. c_of_real (r_exact (of_int n))),
           bf_add = c_add, bf_sub = c_sub, bf_mul = c_mul, bf_div = c_div, bf_abs = c_abs,
           bf_add_error = c_add_error, bf_complex = (\<lambda>z. z) \<rparr>"

section \<open>Polynomials with ball coefficients\<close>

text \<open>
  A polynomial is the list of its coefficients, constant term first, without exactly-zero
  leading coefficients (\<open>pnorm\<close> removes them, as the polynomial constructor does).
  \<open>pcoeff\<close> is \<open>pol[i]\<close>, which is zero beyond the degree; \<open>degree\<close> is \<open>-1\<close> for the zero
  polynomial.
\<close>

definition pnorm :: "'a ballfield \<Rightarrow> 'a list \<Rightarrow> 'a list" where
  "pnorm F cs = rev (dropWhile (\<lambda>c. c = bf_zero F) (rev cs))"

definition pcoeff :: "'a ballfield \<Rightarrow> 'a list \<Rightarrow> nat \<Rightarrow> 'a" where
  "pcoeff F cs i = (if i < length cs then cs ! i else bf_zero F)"

definition degree :: "'a ballfield \<Rightarrow> 'a list \<Rightarrow> int" where
  "degree F cs = int (length (pnorm F cs)) - 1"

definition leading_coefficient :: "'a ballfield \<Rightarrow> 'a list \<Rightarrow> 'a" where
  "leading_coefficient F cs = (case pnorm F cs of [] \<Rightarrow> bf_zero F | c # r \<Rightarrow> last (c # r))"

fun psub_raw :: "'a ballfield \<Rightarrow> 'a list \<Rightarrow> 'a list \<Rightarrow> 'a list" where
  "psub_raw F [] [] = []"
| "psub_raw F (a # as) [] = bf_sub F a (bf_zero F) # psub_raw F as []"
| "psub_raw F [] (b # bs) = bf_sub F (bf_zero F) b # psub_raw F [] bs"
| "psub_raw F (a # as) (b # bs) = bf_sub F a b # psub_raw F as bs"

definition psub :: "'a ballfield \<Rightarrow> 'a list \<Rightarrow> 'a list \<Rightarrow> 'a list" where
  "psub F p q = pnorm F (psub_raw F p q)"

definition pscal :: "'a ballfield \<Rightarrow> 'a \<Rightarrow> 'a list \<Rightarrow> 'a list" where
  "pscal F c p = pnorm F (map (bf_mul F c) p)"

text \<open>Evaluation of a polynomial at a ball, by Horner's rule.\<close>

definition peval :: "'a ballfield \<Rightarrow> 'a list \<Rightarrow> 'a \<Rightarrow> 'a" where
  "peval F cs x = foldr (\<lambda>c acc. bf_add F c (bf_mul F acc x)) cs (bf_zero F)"

datatype bpoly = RPoly "rball list" | CPoly "cball list"

definition is_complex_poly :: "bpoly \<Rightarrow> bool" where
  "is_complex_poly p = (case p of RPoly _ \<Rightarrow> False | CPoly _ \<Rightarrow> True)"

section \<open>Economization (\<open>polynomial_approximation.py\<close>)\<close>

subsection \<open>\<open>taylor_economization\<close>\<close>

text \<open>
  The loop \<open>for i in xrange(pol.degree(), -1, -1)\<close>, with the list of the indices still to
  visit and the pair \<open>(delta_bound, coef)\<close> as its state.  The loop has no \<open>break\<close>.
\<close>

fun taylor_loop ::
  "'a ballfield \<Rightarrow> 'a list \<Rightarrow> rball \<Rightarrow> nat list \<Rightarrow> rball \<times> 'a list \<Rightarrow> rball \<times> 'a list" where
  "taylor_loop F pol eps [] st = st"
| "taylor_loop F pol eps (i # is) (delta_bound, coef) =
     (let tmp_bound = r_add delta_bound (bf_abs F (pcoeff F pol i)) in
      if safe_lt tmp_bound eps
      then taylor_loop F pol eps is (tmp_bound, coef[i := bf_zero F])
      else taylor_loop F pol eps is (delta_bound, coef))"

text \<open>The loop run from \<open>delta_bound = 0\<close> and \<open>coef = list(pol)\<close>; then
  \<open>coef[0]\<close> raises \<open>IndexError\<close> when \<open>pol\<close> is the zero polynomial, since \<open>list(pol)\<close> is
  empty.\<close>

definition taylor_scan :: "'a ballfield \<Rightarrow> 'a list \<Rightarrow> rball \<Rightarrow> rball \<times> 'a list" where
  "taylor_scan F p eps =
     (let pol = pnorm F p
      in taylor_loop F pol eps (rev [0..<length pol]) (r_exact 0, pol))"

definition taylor_economization_in :: "'a ballfield \<Rightarrow> 'a list \<Rightarrow> rball \<Rightarrow> error + cball list" where
  "taylor_economization_in F p eps =
     (let st = taylor_scan F p eps
      in case snd st of
           [] \<Rightarrow> Inl IndexError
         | c0 # cs \<Rightarrow>
             Inr (pnorm CBF (c_add_error (bf_complex F c0) (fst st) # map (bf_complex F) cs)))"

definition taylor_economization :: "bpoly \<Rightarrow> rball \<Rightarrow> error + bpoly" where
  "taylor_economization pol eps =
     (case pol of
        RPoly p \<Rightarrow> map_sum id CPoly (taylor_economization_in RBF p eps)
      | CPoly p \<Rightarrow> map_sum id CPoly (taylor_economization_in CBF p eps))"

subsection \<open>\<open>chebyshev_polynomials\<close>\<close>

text \<open>\<open>2*x*p\<close>: the product of \<open>p\<close> with the monomial \<open>2*x\<close>.\<close>

definition two_x_times :: "'a ballfield \<Rightarrow> 'a list \<Rightarrow> 'a list" where
  "two_x_times F p = pnorm F (bf_zero F # map (bf_mul F (bf_of_int F 2)) p)"

text \<open>The loop \<open>for k in xrange(1, n - 1)\<close>; the first argument counts the iterations left,
  the list holds \<open>cheb_T[0..k]\<close>.\<close>

fun cheb_fill :: "'a ballfield \<Rightarrow> nat \<Rightarrow> 'a list list \<Rightarrow> 'a list list" where
  "cheb_fill F 0 cheb_T = cheb_T"
| "cheb_fill F (Suc m) cheb_T =
     cheb_fill F m (cheb_T @ [psub F (two_x_times F (last cheb_T)) (last (butlast cheb_T))])"

definition chebyshev_polynomials :: "'a ballfield \<Rightarrow> nat \<Rightarrow> 'a list list" where
  "chebyshev_polynomials F n =
     take n (cheb_fill F (n - 2) [[bf_one F], [bf_zero F, bf_one F]])"

subsection \<open>\<open>general_economization\<close>\<close>

text \<open>\<open>p[:k]\<close>: the terms of \<open>p\<close> of degree less than \<open>k\<close>.\<close>

definition ptrunc :: "'a ballfield \<Rightarrow> 'a list \<Rightarrow> nat \<Rightarrow> 'a list" where
  "ptrunc F p k = pnorm F (take k p)"

text \<open>
  The loop \<open>for k in xrange(pol.degree(), -1, -1)\<close> with the state
  \<open>(delta_bound, newpol)\<close>.  A quotient \<open>c\<close> that is not finite makes \<open>tmp_bound\<close> non-finite
  and the test \<open>safe_lt(tmp_bound, eps)\<close> false.  \<open>ecopol[k]\<close> raises \<open>IndexError\<close> when
  the list is too short.  The loop has no \<open>break\<close>.
\<close>

fun general_loop ::
  "'a ballfield \<Rightarrow> 'a list list \<Rightarrow> rball \<Rightarrow> nat list \<Rightarrow> rball \<times> 'a list
     \<Rightarrow> error + rball \<times> 'a list" where
  "general_loop F ecopol eps [] st = Inr st"
| "general_loop F ecopol eps (k # ks) (delta_bound, newpol) =
     (if k < length ecopol then
        (case bf_div F (pcoeff F newpol k) (leading_coefficient F (ecopol ! k)) of
           None \<Rightarrow> general_loop F ecopol eps ks (delta_bound, newpol)
         | Some c \<Rightarrow>
             (let tmp_bound = r_add delta_bound (bf_abs F c) in
              if safe_lt tmp_bound eps
              then general_loop F ecopol eps ks
                     (tmp_bound, psub F (ptrunc F newpol k) (pscal F c (ptrunc F (ecopol ! k) k)))
              else general_loop F ecopol eps ks (delta_bound, newpol)))
      else Inl IndexError)"

text \<open>\<open>newpol[0].add_error(delta_bound) + newpol[1:]\<close>\<close>

definition fold_error :: "'a ballfield \<Rightarrow> rball \<Rightarrow> 'a list \<Rightarrow> 'a list" where
  "fold_error F delta_bound newpol =
     pnorm F (bf_add F (bf_add_error F (pcoeff F newpol 0) delta_bound) (bf_zero F) # tl newpol)"

definition general_economization_in ::
  "'a ballfield \<Rightarrow> (nat \<Rightarrow> 'a list list) \<Rightarrow> 'a list \<Rightarrow> rball \<Rightarrow> error + 'a list" where
  "general_economization_in F economization_polynomials p eps =
     (let pol = pnorm F p;
          ecopol = economization_polynomials (length pol)
      in case general_loop F ecopol eps (rev [0..<length pol]) (r_exact 0, pol) of
           Inl e \<Rightarrow> Inl e
         | Inr (delta_bound, newpol) \<Rightarrow> Inr (fold_error F delta_bound newpol))"

text \<open>The argument \<open>economization_polynomials(ring, n)\<close> is a function of the ring; the
  model passes its two instances.\<close>

record economization_polynomials =
  over_real :: "nat \<Rightarrow> rball list list"
  over_complex :: "nat \<Rightarrow> cball list list"

definition general_economization ::
  "economization_polynomials \<Rightarrow> bpoly \<Rightarrow> rball \<Rightarrow> error + bpoly" where
  "general_economization E pol eps =
     (case pol of
        RPoly p \<Rightarrow> map_sum id RPoly (general_economization_in RBF (over_real E) p eps)
      | CPoly p \<Rightarrow> map_sum id CPoly (general_economization_in CBF (over_complex E) p eps))"

definition chebyshev :: economization_polynomials where
  "chebyshev = \<lparr> over_real = chebyshev_polynomials RBF,
                 over_complex = chebyshev_polynomials CBF \<rparr>"

definition chebyshev_economization :: "bpoly \<Rightarrow> rball \<Rightarrow> error + bpoly" where
  "chebyshev_economization pol eps = general_economization chebyshev pol eps"

subsection \<open>The scan with a stop\<close>




section \<open>Points, paths and the collaborators\<close>

text \<open>
  A number handed to or returned by the program is a real or a complex ball; an exact
  number is a ball of radius zero.
\<close>

datatype number = RNum rball | CNum cball

text \<open>
  Modelled from the spec: \<open>Point.is_real\<close> of the module \<open>path\<close>, which is not among the
  sources.  The spec has a point be real or complex, exact or an interval; the model
  reads this off the kind of its value.
\<close>

definition is_real :: "number \<Rightarrow> bool" where
  "is_real v = (case v of RNum _ \<Rightarrow> True | CNum _ \<Rightarrow> False)"

text \<open>An element of a path is a point or, as the last element handed to \<open>on_interval\<close>, a
  pair \<open>[left, right]\<close>.\<close>

datatype pelem = Vertex number | Interval real real

text \<open>
  The differential operator and the modules \<open>path\<close>, \<open>analytic_continuation\<close>,
  \<open>naive_sum\<close>, \<open>utilities\<close> are not among the sources.  What the program asks of them,
  for the operator \<open>dop\<close> of one \<open>DFiniteFunction\<close>, is a parameter of the model:

  \<^item> \<open>dist_to_sing v\<close> is \<open>Point(v, dop).dist_to_sing()\<close>, \<open>None\<close> standing for \<open>+infinity\<close>;
  \<^item> \<open>approx_abs_real v prec\<close> is \<open>Point(v, dop).approx_abs_real(prec)\<close>;
  \<^item> \<open>accuracy b\<close> is \<open>b.accuracy()\<close>;
  \<^item> \<open>analytic_continuation path eps keep_all ini\<close> is
    \<open>analytic_continuation(Context(dop, path, eps, keep=...), ini=ini)\<close>: a list of pairs of
    a vertex and a matrix, given by its rows;
  \<^item> \<open>ctx_real path\<close> is \<open>ctx.real()\<close> and \<open>prec_from_eps\<close> is \<open>utilities.prec_from_eps\<close>;
  \<^item> \<open>series_sum_ordinary path col real prec eps rad derivatives\<close> is the call
    \<open>series_sum_ordinary(ctx.path.vert[-1].local_diffop(), col, x, AbsoluteError(eps),
    stride=5, rad=rad, derivatives=derivatives)\<close> where \<open>x\<close> is the generator over the real or
    complex ball field of precision \<open>prec\<close>;
  \<^item> \<open>numerical_solution ini path eps\<close> is \<open>dop.numerical_solution(ini, path, eps)\<close>.
\<close>

record collaborators =
  dist_to_sing :: "number \<Rightarrow> rball option"
  approx_abs_real :: "number \<Rightarrow> int \<Rightarrow> rball"
  accuracy :: "number \<Rightarrow> int"
  analytic_continuation ::
    "pelem list \<Rightarrow> rball \<Rightarrow> bool \<Rightarrow> number list \<Rightarrow> error + (number \<times> number list list) list"
  ctx_real :: "pelem list \<Rightarrow> bool"
  prec_from_eps :: "rball \<Rightarrow> int"
  series_sum_ordinary ::
    "pelem list \<Rightarrow> number list \<Rightarrow> bool \<Rightarrow> int \<Rightarrow> rball \<Rightarrow> rball \<Rightarrow> nat \<Rightarrow> error + bpoly list"
  numerical_solution :: "number list \<Rightarrow> pelem list \<Rightarrow> rball \<Rightarrow> error + number"

section \<open>The orchestrator (\<open>doit\<close>, \<open>on_disk\<close>, \<open>on_interval\<close>)\<close>

text \<open>A ball divided by the integer 2.\<close>

definition r_half :: "rball \<Rightarrow> rball" where
  "r_half b = RBall (bmid b / 2) (brad b / 2)"

text \<open>\<open>m.column(0)\<close> and \<open>[c[0] for c in m]\<close>: the first entry of every row; an empty row
  raises \<open>IndexError\<close>.\<close>

fun column0 :: "'a list list \<Rightarrow> error + 'a list" where
  "column0 [] = Inr []"
| "column0 ([] # rows) = Inl IndexError"
| "column0 ((c # _) # rows) = (case column0 rows of Inl e \<Rightarrow> Inl e | Inr cs \<Rightarrow> Inr (c # cs))"

text \<open>
  \<open>pol(s*x)\<close> for a ball \<open>s\<close>: by Horner's rule the coefficient of degree \<open>i\<close> is multiplied
  \<open>i\<close> times by \<open>s\<close>.
\<close>

definition pscale_arg :: "'a ballfield \<Rightarrow> 'a list \<Rightarrow> 'a \<Rightarrow> 'a list" where
  "pscale_arg F p s =
     pnorm F (map (\<lambda>(i, c). ((\<lambda>d. bf_mul F d s) ^^ i) c) (enumerate 0 p))"

definition to_complex :: "bpoly \<Rightarrow> cball list" where
  "to_complex p = (case p of RPoly cs \<Rightarrow> pnorm CBF (map c_of_real cs) | CPoly cs \<Rightarrow> cs)"

text \<open>\<open>pol(s*x)\<close> where \<open>x\<close> is the generator over the real (\<open>real_scalars\<close>) or the complex
  ball field and \<open>s\<close> a real ball.\<close>

definition compose_scaled :: "bool \<Rightarrow> bpoly \<Rightarrow> rball \<Rightarrow> bpoly" where
  "compose_scaled real_scalars pol s =
     (case pol of
        RPoly cs \<Rightarrow>
          (if real_scalars then RPoly (pscale_arg RBF cs s)
           else CPoly (pscale_arg CBF (to_complex pol) (c_of_real s)))
      | CPoly cs \<Rightarrow> CPoly (pscale_arg CBF cs (c_of_real s)))"

text \<open>
  \<open>postprocess\<close>: \<open>economization(pol(rad*x), eps1)(x/rad)\<close>.  The model has no non-finite
  balls: a radius \<open>rad\<close> whose ball contains zero, for which \<open>x/rad\<close> has no finite
  coefficient, is reported as a \<open>Failure\<close>.
\<close>

definition postprocess ::
  "bool \<Rightarrow> rball \<Rightarrow> (bpoly \<Rightarrow> rball \<Rightarrow> error + bpoly) \<Rightarrow> rball \<Rightarrow> bpoly \<Rightarrow> error + bpoly" where
  "postprocess real_scalars rad economization eps1 pol =
     (case economization (compose_scaled real_scalars pol rad) eps1 of
        Inl e \<Rightarrow> Inl e
      | Inr q \<Rightarrow>
          (case r_inv rad of
             None \<Rightarrow> Inl (Failure ''non-finite'')
           | Some s \<Rightarrow> Inr (compose_scaled real_scalars q s)))"

text \<open>\<open>polys.apply_map(postprocess)\<close>, stopping at the first exception.\<close>

fun apply_map :: "('a \<Rightarrow> error + 'b) \<Rightarrow> 'a list \<Rightarrow> error + 'b list" where
  "apply_map f [] = Inr []"
| "apply_map f (x # xs) =
     (case f x of
        Inl e \<Rightarrow> Inl e
      | Inr y \<Rightarrow> (case apply_map f xs of Inl e \<Rightarrow> Inl e | Inr ys \<Rightarrow> Inr (y # ys)))"

definition doit ::
  "collaborators \<Rightarrow> number list \<Rightarrow> pelem list \<Rightarrow> rball \<Rightarrow> rball \<Rightarrow> nat
     \<Rightarrow> (bpoly \<Rightarrow> rball \<Rightarrow> error + bpoly) \<Rightarrow> error + bpoly list" where
  "doit K ini path rad eps derivatives economization =
     (let eps1 = r_half eps in
      case analytic_continuation K path (r_half eps) False ini of
        Inl e \<Rightarrow> Inl e
      | Inr pairs \<Rightarrow>
          (case pairs of
             [] \<Rightarrow> Inl IndexError
           | (vert, local_ini) # _ \<Rightarrow>
               (let prec = prec_from_eps K eps1 in
                case column0 local_ini of
                  Inl e \<Rightarrow> Inl e
                | Inr col \<Rightarrow>
                    (case series_sum_ordinary K path col (ctx_real K path) prec eps1 rad
                            derivatives of
                       Inl e \<Rightarrow> Inl e
                     | Inr polys \<Rightarrow>
                         apply_map (postprocess (ctx_real K path) rad economization eps1) polys))))"

text \<open>The subscript \<open>xs[0]\<close> of a Python list or a vector.\<close>

fun item0 :: "'a list \<Rightarrow> error + 'a" where
  "item0 (x # xs) = Inr x"
| "item0 [] = Inl IndexError"

definition on_disk ::
  "collaborators \<Rightarrow> number list \<Rightarrow> pelem list \<Rightarrow> rball \<Rightarrow> rball \<Rightarrow> error + bpoly" where
  "on_disk K ini path rad eps =
     (case doit K ini path rad eps 1 taylor_economization of
        Inl e \<Rightarrow> Inl e | Inr ps \<Rightarrow> item0 ps)"

text \<open>\<open>on_interval\<close>; \<open>rad = None\<close> takes the radius and the midpoint from a last path element
  \<open>[left, right]\<close>, and raises \<open>TypeError\<close> when the last element is a point.\<close>

definition on_interval ::
  "collaborators \<Rightarrow> number list \<Rightarrow> pelem list \<Rightarrow> rball \<Rightarrow> rball option \<Rightarrow> error + bpoly" where
  "on_interval K ini path eps rad =
     (case rad of
        None \<Rightarrow>
          (case path of
             [] \<Rightarrow> Inl IndexError
           | _ # _ \<Rightarrow>
               (case last path of
                  Vertex _ \<Rightarrow> Inl (TypeError ''missing radius'')
                | Interval left right \<Rightarrow>
                    (case doit K ini (butlast path @ [Vertex (RNum (r_exact ((left + right) / 2)))])
                            (r_exact ((right - left) / 2)) eps 1 chebyshev_economization of
                       Inl e \<Rightarrow> Inl e | Inr ps \<Rightarrow> item0 ps)))
      | Some r \<Rightarrow>
          (case doit K ini path r eps 1 chebyshev_economization of
             Inl e \<Rightarrow> Inl e | Inr ps \<Rightarrow> item0 ps))"

text \<open>
  Two sets of collaborators for running \<open>doit\<close> on concrete data.  \<open>echo\<close> reports the
  error target it is called with: continuation returns it as the local initial value,
  summation appends it to the coefficients made of the initial values.  Its accuracy is
  1000 bits for an exact ball and 0 otherwise.  \<open>echo_only t\<close> does the same for the target
  \<open>t\<close> and fails for every other target.
\<close>

definition echo :: collaborators where
  "echo = \<lparr> dist_to_sing = (\<lambda>v. None),
            approx_abs_real = (\<lambda>v prec. r_exact 0),
            accuracy = (\<lambda>b. case b of
                RNum x \<Rightarrow> if brad x = 0 then 1000 else 0
              | CNum z \<Rightarrow> if brad (cre z) = 0 \<and> brad (cim z) = 0 then 1000 else 0),
            analytic_continuation = (\<lambda>path eps keep_all ini. Inr [(RNum eps, [[RNum eps]])]),
            ctx_real = (\<lambda>path. True),
            prec_from_eps = (\<lambda>eps. 53),
            series_sum_ordinary = (\<lambda>path col real_scalars prec eps rad derivatives.
               Inr [RPoly (map (\<lambda>c. case c of RNum b \<Rightarrow> b | CNum z \<Rightarrow> cre z) col @ [eps])]),
            numerical_solution = (\<lambda>ini path eps. Inr (RNum eps)) \<rparr>"

definition echo_only :: "rball \<Rightarrow> collaborators" where
  "echo_only t =
     echo \<lparr> analytic_continuation := (\<lambda>path eps keep_all ini.
               if eps = t then analytic_continuation echo path eps keep_all ini
               else Inl (Failure ''other target'')),
             prec_from_eps := (\<lambda>eps. if eps = t then prec_from_eps echo eps else 0),
             series_sum_ordinary := (\<lambda>path col real_scalars prec eps rad derivatives.
               if eps = t
               then series_sum_ordinary echo path col real_scalars prec eps rad derivatives
               else Inl (Failure ''other target'')) \<rparr>"

text \<open>An economization that reports its bound: it appends \<open>eps\<close> to the coefficients.\<close>

definition echo_economization :: "bpoly \<Rightarrow> rball \<Rightarrow> error + bpoly" where
  "echo_economization pol eps =
     Inr (case pol of RPoly cs \<Rightarrow> RPoly (cs @ [eps]) | CPoly cs \<Rightarrow> CPoly (cs @ [c_of_real eps]))"

definition echo_economization_only :: "rball \<Rightarrow> bpoly \<Rightarrow> rball \<Rightarrow> error + bpoly" where
  "echo_economization_only t pol eps =
     (if eps = t then echo_economization pol eps else Inl (Failure ''other target''))"

section \<open>The cached evaluator (\<open>function.py\<close>)\<close>

text \<open>
  \<open>RealPolApprox\<close> (fields \<open>pol\<close>, \<open>prec\<close>) and the fields of a \<open>DFiniteFunction\<close> as \<open>__init__\<close> leaves them: the
  single item \<open>(start, ini)\<close> of \<open>self.ini\<close>, \<open>max_rad\<close> (\<open>None\<close> for \<open>RBF('inf')\<close>), \<open>max_prec\<close>,
  and the two caches \<open>_inivecs\<close> and \<open>_polys\<close>.  The centers that key \<open>_polys\<close> are rational
  numbers.
\<close>

record RealPolApprox =
  approx_pol :: bpoly
  approx_prec :: int

record DFiniteFunction =
  self_ini :: "pelem \<times> number list"
  self_max_rad :: "rball option"
  self_max_prec :: int
  self_inivecs :: "number \<rightharpoonup> number list"
  self_polys :: "rat \<rightharpoonup> RealPolApprox"

subsection \<open>\<open>_disk\<close>\<close>

text \<open>\<open>a.min(b)\<close> where either may be \<open>+infinity\<close>.\<close>

definition min_inf :: "rball option \<Rightarrow> rball option \<Rightarrow> rball option" where
  "min_inf a b =
     (case a of
        None \<Rightarrow> b
      | Some x \<Rightarrow> (case b of None \<Rightarrow> Some x | Some y \<Rightarrow> Some (r_min x y)))"

text \<open>
  \<open>ZZ(max_rad.log(2).upper().ceil())\<close>.  The logarithm is finite only for a ball of
  positive numbers; the conversion to an integer raises otherwise.
\<close>

definition initial_expo :: "rball option \<Rightarrow> error + int" where
  "initial_expo max_rad =
     (case max_rad of
        None \<Rightarrow> Inl ValueError
      | Some b \<Rightarrow> if 0 < r_lower b then Inr \<lceil>log 2 (r_upper b)\<rceil> else Inl ValueError)"

text \<open>
  The body of the loop for the exponent \<open>expo\<close>: the mantissa
  \<open>(approx_pt.squash() >> expo).floor()\<close>, made odd, the center \<open>mantissa << expo\<close>, the
  radius \<open>RBF.one() << expo\<close> and the test \<open>safe_ge(dist >> 1, rad)\<close> on the distance \<open>dist\<close>
  from the center to the singularities.
\<close>

definition candidate_mantissa :: "collaborators \<Rightarrow> number \<Rightarrow> int \<Rightarrow> int" where
  "candidate_mantissa K pt expo =
     (let approx_pt = approx_abs_real K pt (- expo);
          mantissa = \<lfloor>bmid (r_shift (squash approx_pt) (- expo))\<rfloor>
      in if mantissa mod 2 = 0 then mantissa + 1 else mantissa)"

definition disk_center :: "int \<Rightarrow> int \<Rightarrow> rat" where
  "disk_center mantissa expo = of_int mantissa * 2 powi expo"

definition center_ball :: "int \<Rightarrow> int \<Rightarrow> rball" where
  "center_ball mantissa expo = r_shift (r_exact (of_int mantissa)) expo"

definition disk_rad :: "int \<Rightarrow> rball" where
  "disk_rad expo = r_shift (r_exact 1) expo"

definition disk_safe :: "collaborators \<Rightarrow> int \<Rightarrow> int \<Rightarrow> bool" where
  "disk_safe K mantissa expo =
     (case dist_to_sing K (RNum (center_ball mantissa expo)) of
        None \<Rightarrow> True
      | Some d \<Rightarrow> safe_ge (r_shift d (- 1)) (disk_rad expo))"

definition candidate_ok :: "collaborators \<Rightarrow> number \<Rightarrow> int \<Rightarrow> bool" where
  "candidate_ok K pt expo = disk_safe K (candidate_mantissa K pt expo) expo"

text \<open>The loop \<open>while True\<close>: it returns the exponent at which it breaks, and \<open>None\<close> when
  it runs forever.\<close>

partial_function (option) disk_loop :: "collaborators \<Rightarrow> number \<Rightarrow> int \<Rightarrow> int option" where
  "disk_loop K pt expo =
     (if candidate_ok K pt expo then Some expo else disk_loop K pt (expo - 1))"

text \<open>
  After the loop: the test that \<open>approx_pt\<close> lies in the disk.  The two lines that choose
  the working precision \<open>F\<close> of this test only affect rounding and have no counterpart
  here.
\<close>

definition disk_check ::
  "collaborators \<Rightarrow> number \<Rightarrow> int \<Rightarrow> error + (rat \<times> rball) option" where
  "disk_check K pt expo =
     (let approx_pt = approx_abs_real K pt (- expo);
          mantissa = candidate_mantissa K pt expo;
          center = center_ball mantissa expo;
          rad = disk_rad expo;
          dist_to_center = r_abs (r_sub approx_pt center)
      in if \<not> safe_le dist_to_center rad
         then (if safe_gt (squash (r_sub (squash approx_pt) center)) rad
               then Inl AssertionError else Inr None)
         else Inr (Some (disk_center mantissa expo, rad)))"

text \<open>\<open>_disk\<close> does not return when the loop does not: the outer \<open>None\<close>.\<close>

definition disk ::
  "collaborators \<Rightarrow> DFiniteFunction \<Rightarrow> number \<Rightarrow> (error + (rat \<times> rball) option) option" where
  "disk K self pt =
     (if \<not> is_real pt then Some (Inl AssertionError)
      else
        (case initial_expo (min_inf (dist_to_sing K pt) (self_max_rad self)) of
           Inl e \<Rightarrow> Some (Inl e)
         | Inr expo0 \<Rightarrow>
             (case disk_loop K pt expo0 of
                None \<Rightarrow> None
              | Some expo \<Rightarrow> Some (disk_check K pt expo))))"

subsection \<open>\<open>approx\<close>\<close>

text \<open>
  The argument \<open>pt\<close> of \<open>approx\<close> before it is wrapped into a \<open>Point\<close>: \<open>_guess_prec\<close> asks
  whether it is a \<open>RealNumber\<close>, \<open>ComplexNumber\<close>, \<open>RealBall\<close> or \<open>ComplexBall\<close>, which carry the
  precision of their parent, or anything else.
\<close>

datatype raw_point = Floating int number | Plain number

definition guess_prec :: "raw_point \<Rightarrow> int" where
  "guess_prec pt = (case pt of Floating p _ \<Rightarrow> p | Plain _ \<Rightarrow> 53)"

definition point_value :: "raw_point \<Rightarrow> number" where
  "point_value pt = (case pt of Floating _ v \<Rightarrow> v | Plain v \<Rightarrow> v)"

text \<open>The value of a real point as a real ball (used on real points only).\<close>

definition real_value :: "number \<Rightarrow> rball" where
  "real_value v = (case v of RNum b \<Rightarrow> b | CNum z \<Rightarrow> cre z)"

definition path_to :: "DFiniteFunction \<Rightarrow> number \<Rightarrow> number list \<times> pelem list" where
  "path_to self dest = (snd (self_ini self), [fst (self_ini self), Vertex dest])"

text \<open>\<open>approx.pol(reduced_pt)\<close>\<close>

definition eval_poly :: "bpoly \<Rightarrow> rball \<Rightarrow> number" where
  "eval_poly p x =
     (case p of
        RPoly cs \<Rightarrow> RNum (peval RBF cs x)
      | CPoly cs \<Rightarrow> CNum (peval CBF cs (c_of_real x)))"

text \<open>
  The loop \<open>for (vert, val) in pairs\<close> on the cache \<open>_inivecs\<close>.  It returns the cache as the
  loop leaves it, and the exception that interrupted it, if any: \<open>known[0]\<close>, \<open>val[0][0]\<close>
  and \<open>c[0]\<close> raise \<open>IndexError\<close> on an empty list.
\<close>

fun merge_inivecs ::
  "collaborators \<Rightarrow> (number \<times> number list list) list \<Rightarrow> (number \<rightharpoonup> number list)
     \<Rightarrow> (number \<rightharpoonup> number list) \<times> error option" where
  "merge_inivecs K [] m = (m, None)"
| "merge_inivecs K ((vert, val) # pairs) m =
     (case (case m vert of
              None \<Rightarrow> Inr True
            | Some known \<Rightarrow>
                (case item0 known of
                   Inl e \<Rightarrow> Inl e
                 | Inr k0 \<Rightarrow>
                     (case item0 val of
                        Inl e \<Rightarrow> Inl e
                      | Inr row0 \<Rightarrow>
                          (case item0 row0 of
                             Inl e \<Rightarrow> Inl e
                           | Inr v00 \<Rightarrow> Inr (accuracy K k0 < accuracy K v00))))) of
        Inl e \<Rightarrow> (m, Some e)
      | Inr False \<Rightarrow> merge_inivecs K pairs m
      | Inr True \<Rightarrow>
          (case column0 val of
             Inl e \<Rightarrow> (m, Some e)
           | Inr col \<Rightarrow> merge_inivecs K pairs (m(vert \<mapsto> col))))"

text \<open>
  The block under \<open>if approx is None or approx.prec < prec\<close>, followed by the evaluation of
  the new polynomial.  The object is returned with the result, since an exception leaves
  the caches as they are at that moment.
\<close>

definition recompute ::
  "collaborators \<Rightarrow> DFiniteFunction \<Rightarrow> number \<Rightarrow> int \<Rightarrow> rat \<Rightarrow> rball
     \<Rightarrow> DFiniteFunction \<times> (error + number)" where
  "recompute K self pt prec center rad =
     (let eps = r_shift (r_exact 1) (- prec);
          reduced_pt = r_sub (real_value pt) (r_exact (of_rat center));
          (ini, path) = path_to self (RNum (r_exact (of_rat center)))
      in case analytic_continuation K path eps True ini of
           Inl e \<Rightarrow> (self, Inl e)
         | Inr pairs \<Rightarrow>
             (let (m, err) = merge_inivecs K pairs (self_inivecs self);
                  self1 = self \<lparr> self_inivecs := m \<rparr>
              in case err of
                   Some e \<Rightarrow> (self1, Inl e)
                 | None \<Rightarrow>
                     (case on_interval K ini path eps (Some rad) of
                        Inl e \<Rightarrow> (self1, Inl e)
                      | Inr p \<Rightarrow>
                          (self1 \<lparr> self_polys := (self_polys self1)
                               (center \<mapsto> \<lparr> approx_pol = p, approx_prec = prec \<rparr>) \<rparr>,
                           Inr (eval_poly p reduced_pt)))))"

text \<open>The part of \<open>approx\<close> after \<open>_disk\<close> has returned a disk.\<close>

definition approx_on_disk ::
  "collaborators \<Rightarrow> DFiniteFunction \<Rightarrow> number \<Rightarrow> int \<Rightarrow> rat \<Rightarrow> rball
     \<Rightarrow> DFiniteFunction \<times> (error + number)" where
  "approx_on_disk K self pt prec center rad =
     (let approx = self_polys self center;
          reduced_pt = r_sub (real_value pt) (r_exact (of_rat center))
      in case approx of
           None \<Rightarrow> recompute K self pt prec center rad
         | Some a \<Rightarrow>
             if approx_prec a < prec then recompute K self pt prec center rad
             else (self, Inr (eval_poly (approx_pol a) reduced_pt)))"

text \<open>\<open>approx\<close>; the precision actually requested is \<open>requested_prec\<close>.\<close>

definition requested_prec :: "raw_point \<Rightarrow> int option \<Rightarrow> int" where
  "requested_prec pt prec = (case prec of None \<Rightarrow> guess_prec pt | Some p \<Rightarrow> p)"

definition approx ::
  "collaborators \<Rightarrow> DFiniteFunction \<Rightarrow> raw_point \<Rightarrow> int option
     \<Rightarrow> (DFiniteFunction \<times> (error + number)) option" where
  "approx K self raw prec0 =
     (let prec = requested_prec raw prec0;
          pt = point_value raw;
          eps = r_shift (r_exact 1) (- prec)
      in if prec \<ge> self_max_prec self \<or> \<not> is_real pt
         then (let (ini, path) = path_to self pt
               in Some (self, numerical_solution K ini path eps))
         else
           (case disk K self pt of
              None \<Rightarrow> None
            | Some (Inl e) \<Rightarrow> Some (self, Inl e)
            | Some (Inr None) \<Rightarrow> Some (self, Inl NotImplementedError)
            | Some (Inr (Some (center, rad))) \<Rightarrow>
                Some (approx_on_disk K self pt prec center rad)))"

text \<open>
  Collaborators for running \<open>_disk\<close> and \<open>approx\<close> on concrete data: an operator whose one
  singular point is the real number \<open>s\<close>, with exact distances and exact approximations
  of real points.  The other collaborators are those of \<open>echo\<close>.
\<close>

definition one_singularity :: "real \<Rightarrow> collaborators" where
  "one_singularity s =
     echo \<lparr> dist_to_sing := (\<lambda>v. case v of
                 RNum b \<Rightarrow> Some (RBall \<bar>bmid b - s\<bar> (brad b))
               | CNum z \<Rightarrow> Some (RBall (sqrt ((bmid (cre z) - s)\<^sup>2 + (bmid (cim z))\<^sup>2))
                                     (brad (cre z) + brad (cim z)))),
             approx_abs_real := (\<lambda>v prec. real_value v) \<rparr>"

text \<open>A real number lies in the disk of the given center and radius.\<close>

definition in_disk :: "rat \<Rightarrow> rball \<Rightarrow> real \<Rightarrow> bool" where
  "in_disk center rad x = (\<bar>x - of_rat center\<bar> \<le> r_upper rad)"

text \<open>An object as \<open>__init__\<close> leaves it for the initial value \<open>[1]\<close> at \<open>0\<close>, the default
  \<open>max_prec\<close> and no bound on the radius: both caches are empty.\<close>

definition fresh :: DFiniteFunction where
  "fresh = \<lparr> self_ini = (Vertex (RNum (r_exact 0)), [RNum (r_exact 1)]),
             self_max_rad = None, self_max_prec = 256,
             self_inivecs = Map.empty, self_polys = Map.empty \<rparr>"

text \<open>
  The accuracy of a cached vector as \<open>approx\<close> measures it, \<open>known[0].accuracy()\<close>, and the
  relation between a cached vector and the one found later in its place: it is the same
  vector, or one of strictly higher accuracy.
\<close>

definition vec_accuracy :: "collaborators \<Rightarrow> number list \<Rightarrow> int option" where
  "vec_accuracy K v = (case v of [] \<Rightarrow> None | c # _ \<Rightarrow> Some (accuracy K c))"

definition not_worse :: "collaborators \<Rightarrow> number list \<Rightarrow> number list \<Rightarrow> bool" where
  "not_worse K known new =
     (new = known \<or>
      (case vec_accuracy K known of
         None \<Rightarrow> False
       | Some a \<Rightarrow> (case vec_accuracy K new of None \<Rightarrow> False | Some a' \<Rightarrow> a < a')))"



section \<open>Values of a polynomial with ball coefficients\<close>

text \<open>
  A complex number lies in a complex ball; the exact ball of a complex number; and the
  value at \<open>z\<close> of the polynomial with the real coefficients \<open>a\<close>.  A polynomial with ball
  coefficients stands for every polynomial whose coefficients lie in its balls.
\<close>

definition c_contains :: "cball \<Rightarrow> complex \<Rightarrow> bool" where
  "c_contains b w = (r_contains (cre b) (Re w) \<and> r_contains (cim b) (Im w))"

definition c_exact :: "complex \<Rightarrow> cball" where
  "c_exact w = CBall (r_exact (Re w)) (r_exact (Im w))"

definition poly_value :: "real list \<Rightarrow> complex \<Rightarrow> complex" where
  "poly_value a z = (\<Sum>i<length a. of_real (a ! i) * z ^ i)"

text \<open>The definitions that a computation on concrete balls unfolds.\<close>

lemmas ball_defs =
  pnorm_def RBF_def CBF_def r_exact_def pcoeff_def leading_coefficient_def r_div_def r_inv_def
  r_lower_def r_upper_def r_of_interval_def r_mul_def r_add_def r_sub_def r_abs_def safe_lt_def
  safe_le_def safe_ge_def safe_gt_def r_add_error_def c_add_error_def c_of_real_def r_shift_def
  r_min_def squash_def r_contains_def Let_def

lemmas poly_defs =
  chebyshev_polynomials_def ptrunc_def psub_def pscal_def fold_error_def two_x_times_def
  peval_def

lemmas eco_defs =
  chebyshev_economization_def general_economization_def chebyshev_def
  general_economization_in_def taylor_economization_def taylor_economization_in_def
  taylor_scan_def is_complex_poly_def

section \<open>Properties of the economization scans\<close>







lemma pnorm_decomp:
  "\<exists>zs. xs = pnorm F xs @ zs \<and> (\<forall>z \<in> set zs. z = bf_zero F)"
proof -
  let ?P = "\<lambda>c. c = bf_zero F"
  have "rev (dropWhile ?P (rev xs)) @ rev (takeWhile ?P (rev xs)) =
        rev (takeWhile ?P (rev xs) @ dropWhile ?P (rev xs))"
    by (simp only: rev_append)
  also have "\<dots> = xs" by simp
  finally have "xs = pnorm F xs @ rev (takeWhile ?P (rev xs))"
    by (simp add: pnorm_def)
  moreover have "\<forall>z \<in> set (rev (takeWhile ?P (rev xs))). z = bf_zero F"
    by (auto dest: set_takeWhileD)
  ultimately show ?thesis by blast
qed

lemma pcoeff_pnorm: "pcoeff F (pnorm F xs) i = pcoeff F xs i"
proof -
  from pnorm_decomp [of xs F] obtain zs where
    xs: "xs = pnorm F xs @ zs" and zs: "\<forall>z \<in> set zs. z = bf_zero F" by blast
  show ?thesis
  proof (cases "i < length (pnorm F xs)")
    case True
    have "pcoeff F xs i = pcoeff F (pnorm F xs @ zs) i" using xs by simp
    also have "\<dots> = pcoeff F (pnorm F xs) i" using True by (simp add: pcoeff_def nth_append)
    finally show ?thesis by simp
  next
    case False
    have "pcoeff F xs i = pcoeff F (pnorm F xs @ zs) i" using xs by simp
    also have "\<dots> = bf_zero F" using False zs by (auto simp: pcoeff_def nth_append)
    finally show ?thesis using False by (simp add: pcoeff_def)
  qed
qed

lemma length_pnorm_le: "length (pnorm F xs) \<le> length xs"
  by (simp add: pnorm_def length_dropWhile_le [of _ "rev xs", simplified])

lemma taylor_economization_in_const:
  assumes "taylor_economization_in F p eps = Inr cs"
  shows "pcoeff CBF cs 0 =
           c_add_error (bf_complex F (pcoeff F (snd (taylor_scan F p eps)) 0)) (fst (taylor_scan F p eps))"
proof (cases "snd (taylor_scan F p eps)")
  case Nil
  with assms show ?thesis by (simp add: taylor_economization_in_def Let_def)
next
  case (Cons c0 r)
  with assms have "cs = pnorm CBF (c_add_error (bf_complex F c0) (fst (taylor_scan F p eps)) # map (bf_complex F) r)"
    by (auto simp add: taylor_economization_in_def Let_def)
  then show ?thesis using Cons by (simp add: pcoeff_pnorm) (simp add: pcoeff_def)
qed


section \<open>Enclosure by \<open>taylor_economization\<close>\<close>

text \<open>
  The ball operations enclose the exact operations, so the value by Horner's rule of a
  polynomial with ball coefficients encloses the value of every polynomial whose
  coefficients lie in the balls.
\<close>

lemma r_add_contains:
  "r_contains A x \<Longrightarrow> r_contains B y \<Longrightarrow> r_contains (r_add A B) (x + y)"
  by (simp add: r_contains_def r_add_def)

lemma r_sub_contains:
  "r_contains A x \<Longrightarrow> r_contains B y \<Longrightarrow> r_contains (r_sub A B) (x - y)"
  by (simp add: r_contains_def r_sub_def)

lemma r_mul_contains:
  assumes "r_contains A x" "r_contains B y"
  shows "r_contains (r_mul A B) (x * y)"
proof -
  let ?a = "bmid A" and ?b = "bmid B"
  from assms have dx: "\<bar>x - ?a\<bar> \<le> brad A" and dy: "\<bar>y - ?b\<bar> \<le> brad B"
    by (simp_all add: r_contains_def)
  have "x * y - ?a * ?b = ?a * (y - ?b) + ?b * (x - ?a) + (x - ?a) * (y - ?b)"
    by (simp add: algebra_simps)
  then have "\<bar>x * y - ?a * ?b\<bar> \<le> \<bar>?a * (y - ?b)\<bar> + \<bar>?b * (x - ?a)\<bar> + \<bar>(x - ?a) * (y - ?b)\<bar>"
    by linarith
  also have "\<dots> = \<bar>?a\<bar> * \<bar>y - ?b\<bar> + \<bar>?b\<bar> * \<bar>x - ?a\<bar> + \<bar>x - ?a\<bar> * \<bar>y - ?b\<bar>"
    by (simp add: abs_mult)
  also have "\<dots> \<le> \<bar>?a\<bar> * brad B + \<bar>?b\<bar> * brad A + brad A * brad B"
  proof -
    have "\<bar>?a\<bar> * \<bar>y - ?b\<bar> \<le> \<bar>?a\<bar> * brad B" using dy by (intro mult_left_mono) auto
    moreover have "\<bar>?b\<bar> * \<bar>x - ?a\<bar> \<le> \<bar>?b\<bar> * brad A" using dx by (intro mult_left_mono) auto
    moreover have "\<bar>x - ?a\<bar> * \<bar>y - ?b\<bar> \<le> brad A * brad B" using dx dy by (intro mult_mono) auto
    ultimately show ?thesis by linarith
  qed
  finally show ?thesis by (simp add: r_contains_def r_mul_def)
qed

lemma c_add_contains:
  "c_contains A x \<Longrightarrow> c_contains B y \<Longrightarrow> c_contains (c_add A B) (x + y)"
  by (simp add: c_contains_def c_add_def r_add_contains)

lemma c_mul_contains:
  "c_contains A x \<Longrightarrow> c_contains B y \<Longrightarrow> c_contains (c_mul A B) (x * y)"
  by (simp add: c_contains_def c_mul_def r_add_contains r_sub_contains r_mul_contains)

lemma c_exact_contains: "c_contains (c_exact z) z"
  by (simp add: c_contains_def c_exact_def r_contains_def r_exact_def)

lemma c_zero_contains: "c_contains (bf_zero CBF) w \<longleftrightarrow> w = 0"
  by (auto simp: c_contains_def CBF_def c_of_real_def r_contains_def r_exact_def complex_eq_iff)

text \<open>The value by Horner's rule of a polynomial with complex coefficients.\<close>

lemma horner_sum:
  fixes f :: "nat \<Rightarrow> complex"
  shows "(\<Sum>i<Suc n. f i * z ^ i) = f 0 + z * (\<Sum>i<n. f (Suc i) * z ^ i)"
proof -
  have "(\<Sum>i<Suc n. f i * z ^ i) = f 0 * z ^ 0 + (\<Sum>i<n. f (Suc i) * z ^ Suc i)"
    by (rule sum.lessThan_Suc_shift)
  also have "(\<Sum>i<n. f (Suc i) * z ^ Suc i) = z * (\<Sum>i<n. f (Suc i) * z ^ i)"
    by (simp add: sum_distrib_left mult_ac)
  finally show ?thesis by simp
qed

lemma peval_contains:
  assumes "c_contains Z z"
  shows "list_all2 c_contains cs bs \<Longrightarrow>
         c_contains (peval CBF cs Z) (\<Sum>i<length bs. bs ! i * z ^ i)"
proof (induction cs arbitrary: bs)
  case Nil
  then show ?case by (simp add: peval_def c_zero_contains)
next
  case (Cons c cs)
  then obtain b bs' where bs: "bs = b # bs'" "c_contains c b" "list_all2 c_contains cs bs'"
    by (auto simp: list_all2_Cons1)
  from Cons.IH [OF bs(3)] have ih: "c_contains (peval CBF cs Z) (\<Sum>i<length bs'. bs' ! i * z ^ i)" .
  have "peval CBF (c # cs) Z = c_add c (c_mul (peval CBF cs Z) Z)"
    by (simp add: peval_def CBF_def)
  moreover have "(\<Sum>i<length bs. bs ! i * z ^ i) = b + (\<Sum>i<length bs'. bs' ! i * z ^ i) * z"
    using horner_sum [of "\<lambda>i. bs ! i" z "length bs'"] by (simp add: bs(1) mult.commute)
  ultimately show ?case using bs(2) ih assms by (simp add: c_add_contains c_mul_contains)
qed

text \<open>
  The scan of \<open>taylor_economization\<close> over real balls: \<open>k\<close> is what is kept of the exact
  coefficients \<open>a\<close> and \<open>d\<close> what is dropped; the kept part lies in \<open>coef\<close>, and the sum of
  the absolute values of the dropped part is at most \<open>delta_bound\<close>.  A rejected term stays
  in \<open>coef\<close>, since the scan writes to one index at a time.
\<close>

lemma peval_zeros:
  "\<forall>c \<in> set zs. c = bf_zero CBF \<Longrightarrow> peval CBF zs Z = bf_zero CBF"
  by (induction zs)
     (simp_all add: peval_def CBF_def c_of_real_def c_add_def c_mul_def r_add_def r_sub_def
       r_mul_def r_exact_def)

lemma peval_append_zeros:
  "\<forall>c \<in> set zs. c = bf_zero CBF \<Longrightarrow> peval CBF (xs @ zs) Z = peval CBF xs Z"
proof (induction xs)
  case Nil
  then show ?case using peval_zeros [of zs Z] by (simp add: peval_def)
next
  case (Cons x xs)
  then have "peval CBF (xs @ zs) Z = peval CBF xs Z" by simp
  then show ?case by (simp add: peval_def)
qed

lemma peval_pnorm: "peval CBF (pnorm CBF L) Z = peval CBF L Z"
proof -
  from pnorm_decomp [of L CBF] obtain zs where
    "L = pnorm CBF L @ zs" "\<forall>c \<in> set zs. c = bf_zero CBF" by blast
  then show ?thesis using peval_append_zeros [of zs "pnorm CBF L" Z] by simp
qed

lemma abs_le_of_contains: "r_contains B x \<Longrightarrow> \<bar>x\<bar> \<le> \<bar>bmid B\<bar> + brad B"
  by (simp add: r_contains_def)

lemma sum_list_update_real:
  fixes xs :: "real list"
  shows "i < length xs \<Longrightarrow> sum_list (xs[i := v]) = sum_list xs + v - xs ! i"
proof (induction xs arbitrary: i)
  case Nil
  then show ?case by simp
next
  case (Cons x xs)
  then show ?case by (cases i) simp_all
qed

lemma taylor_loop_invariant:
  assumes pa: "list_all2 r_contains pol a"
  shows "(\<forall>i \<in> set is. i < length pol) \<Longrightarrow>
         length k = length pol \<Longrightarrow> length d = length pol \<Longrightarrow> length coef = length pol \<Longrightarrow>
         (\<forall>i < length pol. r_contains (coef ! i) (k ! i) \<and> (k ! i = a ! i \<or> k ! i = 0)
              \<and> k ! i + d ! i = a ! i) \<Longrightarrow>
         0 \<le> bmid delta \<Longrightarrow> sum_list (map abs d) \<le> bmid delta + brad delta \<Longrightarrow>
         taylor_loop RBF pol eps is (delta, coef) = (delta', coef') \<Longrightarrow>
         \<exists>k' d'. length k' = length pol \<and> length d' = length pol \<and> length coef' = length pol
            \<and> (\<forall>i < length pol. r_contains (coef' ! i) (k' ! i) \<and> k' ! i + d' ! i = a ! i)
            \<and> 0 \<le> bmid delta' \<and> sum_list (map abs d') \<le> bmid delta' + brad delta'"
proof (induction "is" arbitrary: k d coef delta)
  case Nil
  then show ?case by auto
next
  case (Cons i "is")
  from Cons.prems(1) have i: "i < length pol" and rest: "\<forall>j \<in> set is. j < length pol" by auto
  let ?tmp = "r_add delta (bf_abs RBF (pcoeff RBF pol i))"
  show ?case
  proof (cases "safe_lt ?tmp eps")
    case False
    with Cons.prems(8) have "taylor_loop RBF pol eps is (delta, coef) = (delta', coef')"
      by (simp add: Let_def)
    from Cons.IH [OF rest Cons.prems(2-7) this] show ?thesis .
  next
    case True
    with Cons.prems(8)
    have run: "taylor_loop RBF pol eps is (?tmp, coef[i := bf_zero RBF]) = (delta', coef')"
      by (simp add: Let_def)
    let ?k = "k[i := 0]" and ?d = "d[i := d ! i + k ! i]"
    have tmp: "bmid ?tmp = bmid delta + \<bar>bmid (pol ! i)\<bar>" "brad ?tmp = brad delta + brad (pol ! i)"
      using i by (simp_all add: r_add_def RBF_def r_abs_def pcoeff_def)
    from pa i have ai: "r_contains (pol ! i) (a ! i)" by (simp add: list_all2_conv_all_nth)
    from Cons.prems(5) i have ki: "k ! i = a ! i \<or> k ! i = 0" by blast
    have "\<bar>k ! i\<bar> \<le> \<bar>a ! i\<bar>" using ki by auto
    also have "\<dots> \<le> \<bar>bmid (pol ! i)\<bar> + brad (pol ! i)" by (rule abs_le_of_contains [OF ai])
    finally have kb: "\<bar>k ! i\<bar> \<le> \<bar>bmid (pol ! i)\<bar> + brad (pol ! i)" .
    have l: "length ?k = length pol" "length ?d = length pol"
      "length (coef[i := bf_zero RBF]) = length pol"
      using Cons.prems(2-4) by simp_all
    have inv: "\<forall>j < length pol. r_contains (coef[i := bf_zero RBF] ! j) (?k ! j)
          \<and> (?k ! j = a ! j \<or> ?k ! j = 0) \<and> ?k ! j + ?d ! j = a ! j"
    proof (intro allI impI)
      fix j assume j: "j < length pol"
      show "r_contains (coef[i := bf_zero RBF] ! j) (?k ! j)
          \<and> (?k ! j = a ! j \<or> ?k ! j = 0) \<and> ?k ! j + ?d ! j = a ! j"
      proof (cases "j = i")
        case True
        with Cons.prems(2-5) i show ?thesis
          by (simp add: RBF_def r_contains_def r_exact_def) (metis add.commute)
      next
        case False
        with Cons.prems(5) j show ?thesis by simp
      qed
    qed
    have pos: "0 \<le> bmid ?tmp" using Cons.prems(6) by (simp add: tmp)
    have "sum_list (map abs ?d) = sum_list ((map abs d)[i := \<bar>d ! i + k ! i\<bar>])"
      by (simp add: map_update)
    also have "\<dots> = sum_list (map abs d) + \<bar>d ! i + k ! i\<bar> - \<bar>d ! i\<bar>"
      using i Cons.prems(3) by (simp add: sum_list_update_real)
    also have "\<dots> \<le> sum_list (map abs d) + \<bar>k ! i\<bar>" by linarith
    also have "\<dots> \<le> bmid ?tmp + brad ?tmp" using Cons.prems(7) kb by (simp add: tmp)
    finally have sm: "sum_list (map abs ?d) \<le> bmid ?tmp + brad ?tmp" .
    from Cons.IH [OF rest l inv pos sm run] show ?thesis .
  qed
qed

text \<open>
  Enclosure on the closed unit disk: when the coefficients of \<open>pol\<close> are real balls, the
  result of \<open>taylor_economization\<close>, evaluated at a complex \<open>z\<close> with \<open>\<bar>z\<bar> \<le> 1\<close>, contains
  the value at \<open>z\<close> of every polynomial whose coefficients lie in those of \<open>pol\<close>.
\<close>

lemma taylor_economization_sound:
  assumes run: "taylor_economization (RPoly p) eps = Inr (CPoly cs)"
    and pa: "list_all2 r_contains (pnorm RBF p) a"
    and z: "cmod z \<le> 1"
  shows "c_contains (peval CBF cs (c_exact z)) (poly_value a z)"
proof -
  define pol where "pol = pnorm RBF p"
  define n where "n = length pol"
  from pa have pa': "list_all2 r_contains pol a" by (simp add: pol_def)
  then have la: "length a = n" by (simp add: n_def list_all2_lengthD)
  obtain delta' coef' where
    st: "taylor_loop RBF pol eps (rev [0..<length pol]) (r_exact 0, pol) = (delta', coef')"
    by (cases "taylor_loop RBF pol eps (rev [0..<length pol]) (r_exact 0, pol)") blast
  have cx: "bf_complex RBF = c_of_real" by (simp add: RBF_def)
  from run have "taylor_economization_in RBF p eps = Inr cs"
    by (cases "taylor_economization_in RBF p eps") (simp_all add: taylor_economization_def)
  with st obtain c0 rest where coef': "coef' = c0 # rest"
    and cs: "cs = pnorm CBF (c_add_error (c_of_real c0) delta' # map c_of_real rest)"
    by (cases coef')
       (simp_all add: taylor_economization_in_def taylor_scan_def pol_def [symmetric] Let_def cx)
  have "\<exists>k' d'. length k' = length pol \<and> length d' = length pol \<and> length coef' = length pol
            \<and> (\<forall>i < length pol. r_contains (coef' ! i) (k' ! i) \<and> k' ! i + d' ! i = a ! i)
            \<and> 0 \<le> bmid delta' \<and> sum_list (map abs d') \<le> bmid delta' + brad delta'"
  proof (rule taylor_loop_invariant [OF pa', where k = a and d = "replicate (length pol) 0"])
    show "taylor_loop RBF pol eps (rev [0..<length pol]) (r_exact 0, pol) = (delta', coef')"
      by (rule st)
    show "\<forall>i \<in> set (rev [0..<length pol]). i < length pol" by simp
    show "length a = length pol" using la by (simp add: n_def)
    show "length (replicate (length pol) (0::real)) = length pol" by simp
    show "length pol = length pol" by simp
    show "\<forall>i < length pol. r_contains (pol ! i) (a ! i) \<and> (a ! i = a ! i \<or> a ! i = 0)
        \<and> a ! i + replicate (length pol) 0 ! i = a ! i"
      using pa' by (simp add: list_all2_conv_all_nth)
    show "0 \<le> bmid (r_exact 0)" by (simp add: r_exact_def)
    show "sum_list (map abs (replicate (length pol) (0::real))) \<le> bmid (r_exact 0) + brad (r_exact 0)"
      by (simp add: r_exact_def sum_list_replicate)
  qed
  then obtain k' d' where lk: "length k' = n" and ld: "length d' = n" and lc: "length coef' = n"
    and inv: "\<forall>i < n. r_contains (coef' ! i) (k' ! i) \<and> k' ! i + d' ! i = a ! i"
    and pos: "0 \<le> bmid delta'" and sm: "sum_list (map abs d') \<le> bmid delta' + brad delta'"
    unfolding n_def by blast
  from lc coef' obtain m where n: "n = Suc m" and lrest: "length rest = m" by auto
  with lk obtain k0 kt where k': "k' = k0 # kt" and lkt: "length kt = m" by (cases k') auto
  define D :: complex where "D = (\<Sum>i<n. of_real (d' ! i) * z ^ i)"
  have "cmod D \<le> (\<Sum>i<n. cmod (of_real (d' ! i) * z ^ i))"
    unfolding D_def by (rule norm_sum)
  also have "\<dots> \<le> (\<Sum>i<n. \<bar>d' ! i\<bar>)"
  proof (rule sum_mono)
    fix i
    have "cmod z ^ i \<le> 1" using z by (simp add: power_le_one)
    then have "\<bar>d' ! i\<bar> * cmod z ^ i \<le> \<bar>d' ! i\<bar> * 1" by (intro mult_left_mono) simp_all
    then show "cmod (of_real (d' ! i) * z ^ i) \<le> \<bar>d' ! i\<bar>"
      by (simp add: norm_mult norm_power)
  qed
  also have "\<dots> = sum_list (map abs d')"
    using ld by (simp add: sum_list_sum_nth atLeast0LessThan)
  finally have Db: "cmod D \<le> bmid delta' + brad delta'" using sm by simp
  have reD: "\<bar>Re D\<bar> \<le> bmid delta' + brad delta'"
    using abs_Re_le_cmod [of D] Db by linarith
  have imD: "\<bar>Im D\<bar> \<le> bmid delta' + brad delta'"
    using abs_Im_le_cmod [of D] Db by linarith
  define B where "B = (of_real k0 + D) # map complex_of_real kt"
  from inv n coef' k' have c0: "r_contains c0 k0" by auto
  have hd: "c_contains (c_add_error (c_of_real c0) delta') (of_real k0 + D)"
    using c0 reD imD pos
    by (simp add: c_contains_def c_add_error_def c_of_real_def r_add_error_def r_contains_def
        r_exact_def)
  have tl: "list_all2 c_contains (map c_of_real rest) (map complex_of_real kt)"
  proof (simp add: list_all2_conv_all_nth lrest lkt, intro allI impI)
    fix i assume "i < m"
    with inv n coef' k' have "r_contains (rest ! i) (kt ! i)" by auto
    then show "c_contains (c_of_real (rest ! i)) (complex_of_real (kt ! i))"
      by (simp add: c_contains_def c_of_real_def r_contains_def r_exact_def)
  qed
  from hd tl have LB: "list_all2 c_contains
      (c_add_error (c_of_real c0) delta' # map c_of_real rest) B"
    by (simp add: B_def)
  have lB: "length B = n" by (simp add: B_def lkt n)
  have "(\<Sum>i<n. B ! i * z ^ i) = B ! 0 * z ^ 0 + (\<Sum>i<m. B ! Suc i * z ^ Suc i)"
    unfolding n by (rule sum.lessThan_Suc_shift)
  also have "\<dots> = D + (of_real (k' ! 0) * z ^ 0 + (\<Sum>i<m. of_real (k' ! Suc i) * z ^ Suc i))"
    by (simp add: B_def k' lkt)
  also have "of_real (k' ! 0) * z ^ 0 + (\<Sum>i<m. of_real (k' ! Suc i) * z ^ Suc i)
      = (\<Sum>i<n. of_real (k' ! i) * z ^ i)"
    unfolding n by (rule sum.lessThan_Suc_shift [symmetric])
  also have "D + (\<Sum>i<n. of_real (k' ! i) * z ^ i) = (\<Sum>i<n. of_real (a ! i) * z ^ i)"
  proof -
    have "D + (\<Sum>i<n. of_real (k' ! i) * z ^ i)
        = (\<Sum>i<n. of_real (d' ! i) * z ^ i + of_real (k' ! i) * z ^ i)"
      by (simp add: D_def sum.distrib)
    also have "\<dots> = (\<Sum>i<n. of_real (a ! i) * z ^ i)"
    proof (rule sum.cong)
      fix i assume "i \<in> {..<n}"
      with inv have "k' ! i + d' ! i = a ! i" by simp
      then have "a ! i = d' ! i + k' ! i" by simp
      then have "complex_of_real (a ! i) = of_real (d' ! i) + of_real (k' ! i)"
        by (simp only: of_real_add)
      then show "of_real (d' ! i) * z ^ i + of_real (k' ! i) * z ^ i = of_real (a ! i) * z ^ i"
        by (simp add: algebra_simps)
    qed simp
    finally show ?thesis .
  qed
  finally have val: "(\<Sum>i<length B. B ! i * z ^ i) = poly_value a z"
    by (simp add: poly_value_def la lB)
  have "c_contains (peval CBF (c_add_error (c_of_real c0) delta' # map c_of_real rest) (c_exact z))
      (\<Sum>i<length B. B ! i * z ^ i)"
    by (rule peval_contains [OF c_exact_contains LB])
  then show ?thesis by (simp add: cs peval_pnorm val)
qed

lemma taylor_economization_sound_instance:
  "taylor_economization (RPoly [r_exact 1, r_exact (1/2)]) (r_exact 1)
     = Inr (CPoly [CBall (RBall 1 (1/2)) (RBall 0 (1/2))])
   \<and> c_contains (peval CBF [CBall (RBall 1 (1/2)) (RBall 0 (1/2))] (c_exact 1))
        (poly_value [1, 1/2] 1)"
proof -
  have run: "taylor_economization (RPoly [r_exact 1, r_exact (1/2)]) (r_exact 1)
     = Inr (CPoly [CBall (RBall 1 (1/2)) (RBall 0 (1/2))])"
    by (simp add: eco_defs poly_defs ball_defs)
  have pa: "list_all2 r_contains (pnorm RBF [r_exact 1, r_exact (1/2)]) [1, 1/2]"
    by (simp add: poly_defs ball_defs)
  have z: "cmod 1 \<le> 1" by simp
  from taylor_economization_sound [OF run pa z] run show ?thesis by blast
qed


section \<open>Claims on economization\<close>

text \<open>
  C1 (enclosure of \<open>general_economization\<close>).  The claim asks that the result of
  \<open>general_economization\<close>, evaluated at a real \<open>x\<close> with \<open>\<bar>x\<bar> \<le> 1\<close>, contains the value of
  \<open>pol\<close> there.  For \<open>pol = 10*x\<close> and \<open>eps = 1\<close> the term of degree 1 is rejected, the loop
  goes on, accepts the constant term \<open>0\<close> and replaces \<open>newpol\<close> by \<open>newpol[:0]\<close>, which
  discards the rejected term: the result is the zero polynomial with error bound \<open>0\<close>.  At
  \<open>x = 1\<close> the input has the value \<open>10\<close>, and the result the value \<open>0\<close>.
\<close>

theorem general_economization_discards_rejected_term:
  "chebyshev_economization (RPoly [r_exact 0, r_exact 10]) (r_exact 1) = Inr (RPoly [])
   \<and> r_contains (peval RBF [r_exact 0, r_exact 10] (r_exact 1)) 10
   \<and> \<not> r_contains (peval RBF [] (r_exact 1)) 10"
  by (simp add: eco_defs poly_defs ball_defs)





text \<open>
  C9 (the ring of the result).  As stated the claim fails in its parenthesis: a real input
  of which nothing is dropped keeps an imaginary part of radius zero.  For the constant
  polynomial \<open>5\<close> and \<open>eps = 1\<close> the result is \<open>5 + 0*I\<close> with both radii zero.
\<close>

theorem taylor_economization_exact_imaginary_part:
  "taylor_economization (RPoly [r_exact 5]) (r_exact 1)
     = Inr (CPoly [CBall (RBall 5 0) (RBall 0 0)])"
  by (simp add: eco_defs poly_defs ball_defs)

text \<open>
  C9, amended.  \<open>taylor_economization\<close> always returns a polynomial over the complex ball
  field, \<open>general_economization\<close> one over the ring of its input.  For a real input the
  constant coefficient of the result of \<open>taylor_economization\<close> is the constant coefficient
  left by the scan, cast to the complex field, with the accumulated bound \<open>delta_bound\<close>
  added to the radius of its real and of its imaginary part: the imaginary part is the
  ball of midpoint zero and radius the magnitude of \<open>delta_bound\<close>, which is nonzero exactly
  when that bound is.
\<close>

theorem taylor_economization_ring:
  "(taylor_economization pol eps = Inr q \<longrightarrow> is_complex_poly q)
   \<and> (general_economization E gpol geps = Inr gq \<longrightarrow> is_complex_poly gq = is_complex_poly gpol)
   \<and> (taylor_economization (RPoly p) reps = Inr (CPoly cs) \<longrightarrow>
        cre (pcoeff CBF cs 0) =
          r_add_error (pcoeff RBF (snd (taylor_scan RBF p reps)) 0) (fst (taylor_scan RBF p reps))
        \<and> cim (pcoeff CBF cs 0) = r_add_error (r_exact 0) (fst (taylor_scan RBF p reps))
        \<and> brad (cim (pcoeff CBF cs 0)) =
            \<bar>bmid (fst (taylor_scan RBF p reps))\<bar> + brad (fst (taylor_scan RBF p reps)))"
proof (intro conjI impI)
  assume "taylor_economization pol eps = Inr q"
  then show "is_complex_poly q"
    by (cases pol; cases "taylor_economization_in RBF (case pol of RPoly p \<Rightarrow> p | _ \<Rightarrow> []) eps";
        cases "taylor_economization_in CBF (case pol of CPoly p \<Rightarrow> p | _ \<Rightarrow> []) eps")
       (auto simp: taylor_economization_def is_complex_poly_def)
next
  assume "general_economization E gpol geps = Inr gq"
  then show "is_complex_poly gq = is_complex_poly gpol"
    by (cases gpol;
        cases "general_economization_in RBF (over_real E) (case gpol of RPoly p \<Rightarrow> p | _ \<Rightarrow> []) geps";
        cases "general_economization_in CBF (over_complex E) (case gpol of CPoly p \<Rightarrow> p | _ \<Rightarrow> []) geps")
       (auto simp: general_economization_def is_complex_poly_def)
next
  assume a: "taylor_economization (RPoly p) reps = Inr (CPoly cs)"
  then have "taylor_economization_in RBF p reps = Inr cs"
    by (cases "taylor_economization_in RBF p reps") (auto simp: taylor_economization_def)
  from taylor_economization_in_const [OF this]
  have c: "pcoeff CBF cs 0 =
      c_add_error (c_of_real (pcoeff RBF (snd (taylor_scan RBF p reps)) 0)) (fst (taylor_scan RBF p reps))"
    by (simp add: RBF_def)
  show "cre (pcoeff CBF cs 0) =
          r_add_error (pcoeff RBF (snd (taylor_scan RBF p reps)) 0) (fst (taylor_scan RBF p reps))"
    by (simp add: c c_add_error_def c_of_real_def)
  show "cim (pcoeff CBF cs 0) = r_add_error (r_exact 0) (fst (taylor_scan RBF p reps))"
    by (simp add: c c_add_error_def c_of_real_def)
  show "brad (cim (pcoeff CBF cs 0)) =
            \<bar>bmid (fst (taylor_scan RBF p reps))\<bar> + brad (fst (taylor_scan RBF p reps))"
    by (simp add: c c_add_error_def c_of_real_def r_add_error_def r_exact_def)
qed

theorem taylor_economization_ring_witness:
  "taylor_economization (RPoly [r_exact 1, r_exact 10, r_exact 1]) (r_exact 3)
     = Inr (CPoly [CBall (RBall 0 2) (RBall 0 2), CBall (RBall 10 0) (RBall 0 0)])
   \<and> is_complex_poly (CPoly [CBall (RBall 0 2) (RBall 0 2), CBall (RBall 10 0) (RBall 0 0)])
   \<and> general_economization chebyshev (RPoly [r_exact 0, r_exact 10, r_exact (1 / 2)]) (r_exact 1)
     = Inr (RPoly [RBall 0 (1 / 2)])
   \<and> is_complex_poly (RPoly [RBall 0 (1 / 2)])
     = is_complex_poly (RPoly [r_exact 0, r_exact 10, r_exact (1 / 2)])
   \<and> cim (pcoeff CBF [CBall (RBall 0 2) (RBall 0 2), CBall (RBall 10 0) (RBall 0 0)] 0)
     = r_add_error (r_exact 0) (fst (taylor_scan RBF [r_exact 1, r_exact 10, r_exact 1] (r_exact 3)))"
proof -
  let ?p = "[r_exact 1, r_exact 10, r_exact 1]"
  let ?cs = "[CBall (RBall 0 2) (RBall 0 2), CBall (RBall 10 0) (RBall 0 0)]"
  let ?g = "[r_exact 0, r_exact 10, r_exact (1 / 2)]"
  have h1: "taylor_economization (RPoly ?p) (r_exact 3) = Inr (CPoly ?cs)"
    by (simp add: eco_defs poly_defs ball_defs upt_rec)
  have h2: "general_economization chebyshev (RPoly ?g) (r_exact 1) = Inr (RPoly [RBall 0 (1 / 2)])"
    by (simp add: eco_defs poly_defs ball_defs upt_rec numeral_eq_Suc)
  note T = taylor_economization_ring [of "RPoly ?p" "r_exact 3" "CPoly ?cs"
      chebyshev "RPoly ?g" "r_exact 1" "RPoly [RBall 0 (1 / 2)]" ?p "r_exact 3" ?cs]
  from T h1 have a: "is_complex_poly (CPoly ?cs)" by blast
  from T h2 have b: "is_complex_poly (RPoly [RBall 0 (1 / 2)]) = is_complex_poly (RPoly ?g)"
    by blast
  from T h1 have c: "cim (pcoeff CBF ?cs 0) = r_add_error (r_exact 0) (fst (taylor_scan RBF ?p (r_exact 3)))"
    by blast
  from h1 h2 a b c show ?thesis by blast
qed

section \<open>Claims on the orchestrator\<close>

lemmas doit_defs =
  doit_def postprocess_def compose_scaled_def pscale_arg_def r_half_def enumerate_eq_zip
  echo_def echo_only_def echo_economization_def echo_economization_only_def

lemma postprocess_cong:
  "(\<And>p. economization' p eps1 = economization p eps1) \<Longrightarrow>
   postprocess re rad economization' eps1 = postprocess re rad economization eps1"
  by (rule ext) (simp add: postprocess_def)

text \<open>
  C5 (the split of the error budget).  As stated the claim fails: \<open>eps1 = IR(eps)/2\<close>, so
  summation and economization receive \<open>eps/2\<close>, not \<open>eps/4\<close>.  With collaborators and an
  economization that report their error target, \<open>doit\<close> at \<open>eps = 1\<close> returns the
  polynomial whose coefficients are the target of the continuation, of the summation and
  of the economization: all three are \<open>1/2\<close>.
\<close>

theorem doit_budget_is_half:
  "doit echo [] [] (r_exact 1) (r_exact 1) 1 echo_economization
     = Inr [RPoly [RBall (1 / 2) 0, RBall (1 / 2) 0, RBall (1 / 2) 0]]"
  by (simp add: doit_defs ball_defs upt_rec)

text \<open>
  C5, amended.  The split is fixed: the continuation is invoked with the target \<open>eps/2\<close>,
  and the budget \<open>eps1\<close> passed to \<open>prec_from_eps\<close>, to the summation and to the economization
  is \<open>eps/2\<close> as well.  Stated on the model: the result of \<open>doit\<close> does not change when the
  collaborators and the economization are replaced by others that agree with them at the
  target \<open>eps/2\<close>, whatever they do at other targets.
\<close>

theorem doit_error_budget:
  assumes ac: "\<forall>keep_all ini. analytic_continuation K' path (r_half eps) keep_all ini
                  = analytic_continuation K path (r_half eps) keep_all ini"
    and ss: "\<forall>pth col re pr rd n. series_sum_ordinary K' pth col re pr (r_half eps) rd n
                  = series_sum_ordinary K pth col re pr (r_half eps) rd n"
    and pe: "prec_from_eps K' (r_half eps) = prec_from_eps K (r_half eps)"
    and cr: "ctx_real K' path = ctx_real K path"
    and ec: "\<forall>p. economization' p (r_half eps) = economization p (r_half eps)"
  shows "doit K' ini path rad eps derivatives economization'
           = doit K ini path rad eps derivatives economization"
proof -
  have pp: "postprocess (ctx_real K path) rad economization' (r_half eps)
              = postprocess (ctx_real K path) rad economization (r_half eps)"
    using ec by (intro postprocess_cong) simp
  show ?thesis
    unfolding doit_def Let_def using ac ss pe cr pp
    by (simp split: sum.splits list.splits prod.splits)
qed

theorem doit_error_budget_witness:
  "doit (echo_only (r_exact (1 / 2))) [] [] (r_exact 1) (r_exact 1) 1
        (echo_economization_only (r_exact (1 / 2)))
     = doit echo [] [] (r_exact 1) (r_exact 1) 1 echo_economization
   \<and> doit (echo_only (r_exact (1 / 2))) [] [] (r_exact 1) (r_exact 1) 1
        (echo_economization_only (r_exact (1 / 2)))
     = Inr [RPoly [RBall (1 / 2) 0, RBall (1 / 2) 0, RBall (1 / 2) 0]]"
proof -
  let ?K' = "echo_only (r_exact (1 / 2))"
  have h: "r_half (r_exact 1) = r_exact (1 / 2)" by (simp add: r_half_def r_exact_def)
  have ac: "\<forall>keep_all ini. analytic_continuation ?K' [] (r_half (r_exact 1)) keep_all ini
               = analytic_continuation echo [] (r_half (r_exact 1)) keep_all ini"
    by (simp add: h echo_only_def)
  have ss: "\<forall>pth col re pr rd n. series_sum_ordinary ?K' pth col re pr (r_half (r_exact 1)) rd n
               = series_sum_ordinary echo pth col re pr (r_half (r_exact 1)) rd n"
    by (simp add: h echo_only_def)
  have pe: "prec_from_eps ?K' (r_half (r_exact 1)) = prec_from_eps echo (r_half (r_exact 1))"
    by (simp add: h echo_only_def)
  have cr: "ctx_real ?K' [] = ctx_real echo []" by (simp add: echo_only_def)
  have ec: "\<forall>p. echo_economization_only (r_exact (1 / 2)) p (r_half (r_exact 1))
               = echo_economization p (r_half (r_exact 1))"
    by (simp add: h echo_economization_only_def)
  have "doit ?K' [] [] (r_exact 1) (r_exact 1) 1 (echo_economization_only (r_exact (1 / 2)))
          = doit echo [] [] (r_exact 1) (r_exact 1) 1 echo_economization"
    by (rule doit_error_budget [of ?K' "[]" "r_exact 1" echo
          "echo_economization_only (r_exact (1 / 2))" echo_economization, OF ac ss pe cr ec])
  moreover have "doit echo [] [] (r_exact 1) (r_exact 1) 1 echo_economization
          = Inr [RPoly [RBall (1 / 2) 0, RBall (1 / 2) 0, RBall (1 / 2) 0]]"
    by (simp add: doit_defs ball_defs upt_rec)
  ultimately show ?thesis by simp
qed

section \<open>Properties of the disk locator\<close>

lemma ceiling_log2_eq:
  assumes "0 < x" "2 powi (k - 1) < x" "x \<le> 2 powi k"
  shows "\<lceil>log 2 x\<rceil> = k"
proof (rule ceiling_unique)
  have "2 powr real_of_int (k - 1) < x"
    using assms(2) powr_real_of_int' [of 2 "k - 1"] by simp
  then have "real_of_int (k - 1) < log 2 x" using assms(1) by (simp add: less_log_iff)
  then show "real_of_int k - 1 < log 2 x" by simp
  have "x \<le> 2 powr real_of_int k" using assms(3) by (simp add: powr_real_of_int')
  then show "log 2 x \<le> real_of_int k" using assms(1) by (simp add: log_le_iff)
qed


lemma disk_loop_result:
  assumes "disk_loop K pt expo0 = Some expo"
  shows "expo \<le> expo0 \<and> candidate_ok K pt expo \<and>
         (\<forall>e. expo < e \<and> e \<le> expo0 \<longrightarrow> \<not> candidate_ok K pt e)"
proof (rule disk_loop.raw_induct
    [where P = "\<lambda>K pt expo0 expo. expo \<le> expo0 \<and> candidate_ok K pt expo \<and>
                 (\<forall>e. expo < e \<and> e \<le> expo0 \<longrightarrow> \<not> candidate_ok K pt e)", OF _ assms])
  fix loop :: "collaborators \<Rightarrow> number \<Rightarrow> int \<Rightarrow> int option" and K pt expo0 expo
  assume ih: "\<And>K pt expo0 expo. loop K pt expo0 = Some expo \<Longrightarrow>
               expo \<le> expo0 \<and> candidate_ok K pt expo \<and>
               (\<forall>e. expo < e \<and> e \<le> expo0 \<longrightarrow> \<not> candidate_ok K pt e)"
    and eq: "(if candidate_ok K pt expo0 then Some expo0 else loop K pt (expo0 - 1)) = Some expo"
  show "expo \<le> expo0 \<and> candidate_ok K pt expo \<and>
        (\<forall>e. expo < e \<and> e \<le> expo0 \<longrightarrow> \<not> candidate_ok K pt e)"
  proof (cases "candidate_ok K pt expo0")
    case True
    with eq show ?thesis by auto
  next
    case False
    with eq have "loop K pt (expo0 - 1) = Some expo" by simp
    from ih [OF this] have r: "expo \<le> expo0 - 1" "candidate_ok K pt expo"
      "\<forall>e. expo < e \<and> e \<le> expo0 - 1 \<longrightarrow> \<not> candidate_ok K pt e" by auto
    have "\<not> candidate_ok K pt e" if "expo < e" "e \<le> expo0" for e
    proof (cases "e = expo0")
      case True with False show ?thesis by simp
    next
      case False
      with that have "e \<le> expo0 - 1" by simp
      with that r(3) show ?thesis by blast
    qed
    with r show ?thesis by auto
  qed
qed


lemma candidate_mantissa_odd: "odd (candidate_mantissa K pt expo)"
  by (simp add: candidate_mantissa_def Let_def) presburger

lemma packing_overlap:
  fixes s x y :: real
  assumes s: "0 < s" and odd: "odd m" "odd m'" and ne: "m \<noteq> m'"
    and x: "\<bar>x - of_int m * s\<bar> \<le> s" "\<bar>x - of_int m' * s\<bar> \<le> s"
    and y: "\<bar>y - of_int m * s\<bar> \<le> s" "\<bar>y - of_int m' * s\<bar> \<le> s"
  shows "x = y"
proof -
  have key: "u = (of_int a + 1) * s"
    if "a + 2 \<le> b" "\<bar>u - of_int a * s\<bar> \<le> s" "\<bar>u - of_int b * s\<bar> \<le> s" for a b :: int and u :: real
  proof -
    from that(1) have "of_int a + 2 \<le> (of_int b :: real)" by linarith
    then have "(of_int a + 2) * s \<le> of_int b * s" using s by (intro mult_right_mono) auto
    then have "(of_int a + 1) * s + s \<le> of_int b * s" by (simp add: algebra_simps)
    moreover from that(2) have "u \<le> (of_int a + 1) * s" by (simp add: algebra_simps abs_le_iff)
    moreover from that(3) have "of_int b * s - s \<le> u" by (simp add: algebra_simps abs_le_iff)
    ultimately show ?thesis by linarith
  qed
  from odd ne have "m + 2 \<le> m' \<or> m' + 2 \<le> m" by presburger
  then show ?thesis
  proof
    assume "m + 2 \<le> m'"
    from key [OF this x] key [OF this y] show ?thesis by simp
  next
    assume "m' + 2 \<le> m"
    from key [OF this x(2) x(1)] key [OF this y(2) y(1)] show ?thesis by simp
  qed
qed

lemma of_rat_power_int: "(of_rat (a powi n) :: real) = of_rat a powi n"
  by (simp add: power_int_def of_rat_power of_rat_inverse)

lemma of_rat_disk_center: "(of_rat (disk_center m e) :: real) = of_int m * 2 powi e"
  by (simp add: disk_center_def of_rat_mult of_rat_power_int)

lemma center_ball_exact: "center_ball m e = r_exact (of_int m * 2 powi e)"
  by (simp add: center_ball_def r_shift_def r_exact_def)

lemma disk_rad_exact: "disk_rad e = RBall (2 powi e) 0"
  by (simp add: disk_rad_def r_shift_def r_exact_def)

lemma disk_safe_lower:
  "disk_safe K m e \<Longrightarrow> dist_to_sing K (RNum (center_ball m e)) = Some d \<Longrightarrow>
   2 * 2 powi e \<le> r_lower d"
  by (simp add: disk_safe_def safe_ge_def safe_le_def disk_rad_exact r_upper_def r_lower_def
      r_shift_def power_int_minus field_simps)

lemma disk_returns:
  assumes "disk K self pt = Some (Inr (Some (center, rad)))"
  shows "\<exists>expo0 expo. is_real pt
           \<and> initial_expo (min_inf (dist_to_sing K pt) (self_max_rad self)) = Inr expo0
           \<and> disk_loop K pt expo0 = Some expo
           \<and> center = disk_center (candidate_mantissa K pt expo) expo
           \<and> rad = disk_rad expo"
proof -
  from assms have re: "is_real pt" by (auto simp: disk_def split: if_splits)
  from assms re obtain expo0 where
    e0: "initial_expo (min_inf (dist_to_sing K pt) (self_max_rad self)) = Inr expo0"
    by (auto simp: disk_def split: sum.splits)
  from assms re e0 obtain expo where
    lp: "disk_loop K pt expo0 = Some expo" and ck: "disk_check K pt expo = Inr (Some (center, rad))"
    by (auto simp: disk_def split: option.splits)
  from ck have "center = disk_center (candidate_mantissa K pt expo) expo" "rad = disk_rad expo"
    by (auto simp: disk_check_def Let_def split: if_splits)
  with re e0 lp show ?thesis by blast
qed


lemma one_singularity_dist:
  "dist_to_sing (one_singularity s) (RNum b) = Some (RBall \<bar>bmid b - s\<bar> (brad b))"
  by (simp add: one_singularity_def)

lemma one_singularity_approx:
  "approx_abs_real (one_singularity s) v p = real_value v"
  by (simp add: one_singularity_def)

lemmas disk_defs =
  disk_def initial_expo_def min_inf_def disk_check_def candidate_ok_def disk_safe_def
  candidate_mantissa_def disk_center_def center_ball_def disk_rad_def
  one_singularity_dist one_singularity_approx
  fresh_def is_real_def real_value_def in_disk_def

text \<open>Two runs of \<open>_disk\<close>: the point 3 with a singularity at 0, and the point 4 with a
  singularity at 8.\<close>

lemma log2_3: "\<lceil>log 2 3\<rceil> = 2"
  by (rule ceiling_log2_eq) simp_all


lemma disk_loop_3: "disk_loop (one_singularity 0) (RNum (RBall 3 0)) 2 = Some 0"
  by (simp add: disk_loop.simps disk_defs ball_defs)

lemma disk_3: "disk (one_singularity 0) fresh (RNum (r_exact 3)) = Some (Inr (Some (3, RBall 1 0)))"
  by (simp add: disk_loop_3 log2_3 disk_defs ball_defs)



section \<open>Claims on the disk locator\<close>

text \<open>
  C3 (packing and safety of a returned disk).  Every disk returned by \<open>_disk\<close> has a center
  that is an odd integer mantissa times \<open>2^expo\<close> and the exact radius \<open>2^expo\<close>; it is the
  candidate the loop accepted, so it passes \<open>safe_ge(dist >> 1, rad)\<close>, and the certified
  distance from its center to the singularities is at least twice its radius.  Two disks
  of the packing with the same exponent have at most one real point in common.  The
  center is returned as a rational number.
\<close>

theorem disk_invariants:
  assumes "disk K self pt = Some (Inr (Some (center, rad)))"
  shows "\<exists>mantissa expo.
           odd mantissa
           \<and> center = of_int mantissa * 2 powi expo
           \<and> rad = RBall (2 powi expo) 0
           \<and> candidate_ok K pt expo
           \<and> disk_safe K mantissa expo
           \<and> (\<forall>d. dist_to_sing K (RNum (r_exact (of_rat center))) = Some d
                  \<longrightarrow> safe_ge (r_shift d (- 1)) rad \<and> 2 * r_upper rad \<le> r_lower d)
           \<and> (\<forall>m' x y. odd m' \<and> m' \<noteq> mantissa
                  \<and> in_disk center rad x \<and> in_disk (of_int m' * 2 powi expo) rad x
                  \<and> in_disk center rad y \<and> in_disk (of_int m' * 2 powi expo) rad y
                  \<longrightarrow> x = y)"
proof -
  from disk_returns [OF assms] obtain expo0 expo where
    lp: "disk_loop K pt expo0 = Some expo"
    and c: "center = disk_center (candidate_mantissa K pt expo) expo"
    and r: "rad = disk_rad expo" by blast
  let ?m = "candidate_mantissa K pt expo"
  have odd: "odd ?m" by (rule candidate_mantissa_odd)
  from disk_loop_result [OF lp] have ok: "candidate_ok K pt expo" by simp
  then have safe: "disk_safe K ?m expo" by (simp add: candidate_ok_def)
  have cb: "r_exact (of_rat center) = center_ball ?m expo"
    by (simp add: c center_ball_exact of_rat_disk_center)
  have up: "r_upper rad = 2 powi expo" by (simp add: r disk_rad_exact r_upper_def)
  have d: "safe_ge (r_shift d (- 1)) rad \<and> 2 * r_upper rad \<le> r_lower d"
    if "dist_to_sing K (RNum (r_exact (of_rat center))) = Some d" for d
  proof -
    from that cb have dd: "dist_to_sing K (RNum (center_ball ?m expo)) = Some d" by simp
    with safe have "safe_ge (r_shift d (- 1)) rad" by (simp add: disk_safe_def r)
    moreover from disk_safe_lower [OF safe dd] have "2 * r_upper rad \<le> r_lower d" by (simp add: up)
    ultimately show ?thesis by simp
  qed
  have pk: "x = y"
    if "odd m' \<and> m' \<noteq> ?m
        \<and> in_disk center rad x \<and> in_disk (of_int m' * 2 powi expo) rad x
        \<and> in_disk center rad y \<and> in_disk (of_int m' * 2 powi expo) rad y" for m' x y
  proof -
    have s: "(0::real) < 2 powi expo" by (simp add: zero_less_power_int)
    have c1: "(of_rat center :: real) = of_int ?m * 2 powi expo" by (simp add: c of_rat_disk_center)
    have c2: "(of_rat (of_int m' * 2 powi expo) :: real) = of_int m' * 2 powi expo"
      by (simp add: of_rat_mult of_rat_power_int)
    from that have "\<bar>x - of_int ?m * 2 powi expo\<bar> \<le> 2 powi expo"
      "\<bar>x - of_int m' * 2 powi expo\<bar> \<le> 2 powi expo"
      "\<bar>y - of_int ?m * 2 powi expo\<bar> \<le> 2 powi expo"
      "\<bar>y - of_int m' * 2 powi expo\<bar> \<le> 2 powi expo"
      by (simp_all add: in_disk_def up c1 c2)
    with packing_overlap [OF s odd, of m' x y] that show ?thesis by blast
  qed
  have "center = of_int ?m * 2 powi expo" by (simp add: c disk_center_def)
  with odd r ok safe d pk show ?thesis
    unfolding disk_rad_exact by blast
qed

theorem disk_invariants_witness:
  "disk (one_singularity 0) fresh (RNum (r_exact 3)) = Some (Inr (Some (3, RBall 1 0)))
   \<and> (\<exists>mantissa expo. odd mantissa \<and> (3::rat) = of_int mantissa * 2 powi expo
         \<and> RBall 1 0 = RBall (2 powi expo) 0
         \<and> candidate_ok (one_singularity 0) (RNum (r_exact 3)) expo
         \<and> disk_safe (one_singularity 0) mantissa expo)"
proof -
  from disk_invariants [OF disk_3] obtain mantissa expo where
    "odd mantissa" "(3::rat) = of_int mantissa * 2 powi expo" "RBall 1 0 = RBall (2 powi expo) 0"
    "candidate_ok (one_singularity 0) (RNum (r_exact 3)) expo"
    "disk_safe (one_singularity 0) mantissa expo"
    by blast
  with disk_3 show ?thesis by blast
qed

text \<open>Lemmas for the claims C6 and C10.\<close>

lemma disk_cong: "self_max_rad a = self_max_rad b \<Longrightarrow> disk K a pt = disk K b pt"
  by (simp add: disk_def)




















section \<open>Properties of the cached evaluator\<close>

lemma not_worse_refl: "not_worse K v v"
  by (simp add: not_worse_def)

lemma not_worse_trans: "not_worse K a b \<Longrightarrow> not_worse K b c \<Longrightarrow> not_worse K a c"
  by (auto simp: not_worse_def split: option.splits)

lemma column0_head: "column0 ((c # r) # rows) = Inr col \<Longrightarrow> \<exists>cs. col = c # cs"
  by (auto split: sum.splits)

text \<open>One step of the loop on \<open>_inivecs\<close>.\<close>

lemma merge_inivecs_step:
  assumes "merge_inivecs K ((vert, val) # pairs) m = (m', err)"
  shows "(m' = m \<and> err \<noteq> None)
         \<or> merge_inivecs K pairs m = (m', err)
         \<or> (\<exists>col. column0 val = Inr col \<and> merge_inivecs K pairs (m(vert \<mapsto> col)) = (m', err)
               \<and> (case m vert of None \<Rightarrow> True | Some known \<Rightarrow>
                     (case vec_accuracy K known of None \<Rightarrow> False
                      | Some a \<Rightarrow> (case vec_accuracy K col of None \<Rightarrow> False | Some a' \<Rightarrow> a < a'))))"
proof (cases "m vert")
  case None
  with assms show ?thesis by (auto split: sum.splits)
next
  case (Some known)
  show ?thesis
  proof (cases known)
    case Nil
    with assms Some show ?thesis by auto
  next
    case kn: (Cons k0 ks)
    show ?thesis
    proof (cases val)
      case Nil
      with assms Some kn show ?thesis by auto
    next
      case v: (Cons row0 rows)
      show ?thesis
      proof (cases row0)
        case Nil
        with assms Some kn v show ?thesis by auto
      next
        case r: (Cons v00 vs)
        show ?thesis
        proof (cases "accuracy K k0 < accuracy K v00")
          case False
          with assms Some kn v r show ?thesis by auto
        next
          case True
          show ?thesis
          proof (cases "column0 val")
            case (Inl e)
            with assms Some kn v r True show ?thesis by auto
          next
            case (Inr col)
            from Inr v r have "column0 ((v00 # vs) # rows) = Inr col" by simp
            from column0_head [OF this] obtain cs where col: "col = v00 # cs" by blast
            from assms Some kn v r True Inr
            have "merge_inivecs K pairs (m(vert \<mapsto> col)) = (m', err)" by simp
            moreover have "vec_accuracy K known = Some (accuracy K k0)"
              "vec_accuracy K col = Some (accuracy K v00)"
              by (simp_all add: vec_accuracy_def kn col)
            ultimately show ?thesis using Some Inr True by simp
          qed
        qed
      qed
    qed
  qed
qed

lemma merge_inivecs_monotone:
  "merge_inivecs K pairs m = (m', err) \<Longrightarrow> m v = Some known \<Longrightarrow>
   \<exists>new. m' v = Some new \<and> not_worse K known new"
proof (induction pairs arbitrary: m known)
  case Nil
  then show ?case by (auto simp: not_worse_refl)
next
  case (Cons pr pairs)
  obtain vert val where pr: "pr = (vert, val)" by (cases pr)
  from merge_inivecs_step [OF Cons.prems(1) [unfolded pr]]
  consider (stop) "m' = m"
    | (skip) "merge_inivecs K pairs m = (m', err)"
    | (store) col where "column0 val = Inr col"
        "merge_inivecs K pairs (m(vert \<mapsto> col)) = (m', err)"
        "case m vert of None \<Rightarrow> True | Some known \<Rightarrow>
           (case vec_accuracy K known of None \<Rightarrow> False
            | Some a \<Rightarrow> (case vec_accuracy K col of None \<Rightarrow> False | Some a' \<Rightarrow> a < a'))"
    by blast
  then show ?case
  proof cases
    case stop
    with Cons.prems(2) show ?thesis by (auto simp: not_worse_refl)
  next
    case skip
    from Cons.IH [OF skip Cons.prems(2)] show ?thesis .
  next
    case store
    show ?thesis
    proof (cases "v = vert")
      case False
      with Cons.prems(2) have "(m(vert \<mapsto> col)) v = Some known" by simp
      from Cons.IH [OF store(2) this] show ?thesis .
    next
      case True
      with Cons.prems(2) store(3) have nw: "not_worse K known col"
        by (simp add: not_worse_def)
      from True have "(m(vert \<mapsto> col)) v = Some col" by simp
      from Cons.IH [OF store(2) this] obtain new where
        "m' v = Some new" "not_worse K col new" by blast
      with nw show ?thesis by (blast intro: not_worse_trans)
    qed
  qed
qed

lemma recompute_inivecs:
  assumes "recompute K self pt prec center rad = (self', r)"
  shows "\<exists>pairs err. merge_inivecs K pairs (self_inivecs self) = (self_inivecs self', err)"
proof -
  obtain ini path where ip: "path_to self (RNum (r_exact (of_rat center))) = (ini, path)"
    by (cases "path_to self (RNum (r_exact (of_rat center)))")
  show ?thesis
  proof (cases "analytic_continuation K path (r_shift (r_exact 1) (- prec)) True ini")
    case (Inl e)
    with assms ip have "self' = self" by (simp add: recompute_def Let_def)
    then have "merge_inivecs K [] (self_inivecs self) = (self_inivecs self', None)" by simp
    then show ?thesis by blast
  next
    case (Inr pairs)
    obtain m err where me: "merge_inivecs K pairs (self_inivecs self) = (m, err)"
      by (cases "merge_inivecs K pairs (self_inivecs self)")
    with assms ip Inr have "self_inivecs self' = m"
      by (auto simp: recompute_def Let_def split: option.splits sum.splits)
    with me show ?thesis by blast
  qed
qed

lemma approx_on_disk_cases:
  assumes "approx_on_disk K self pt prec center rad = (self', r)"
  shows "self' = self \<or> recompute K self pt prec center rad = (self', r)"
  using assms by (auto simp: approx_on_disk_def Let_def split: option.splits if_splits)

lemma approx_on_disk_inivecs:
  assumes "approx_on_disk K self pt prec center rad = (self', r)"
  shows "\<exists>pairs err. merge_inivecs K pairs (self_inivecs self) = (self_inivecs self', err)"
proof -
  from approx_on_disk_cases [OF assms] show ?thesis
  proof
    assume "self' = self"
    then have "merge_inivecs K [] (self_inivecs self) = (self_inivecs self', None)" by simp
    then show ?thesis by blast
  next
    assume "recompute K self pt prec center rad = (self', r)"
    then show ?thesis by (rule recompute_inivecs)
  qed
qed

lemma approx_cases:
  assumes "approx K self pt prec = Some (self', r)"
  shows "self' = self
         \<or> (\<exists>center rad. disk K self (point_value pt) = Some (Inr (Some (center, rad)))
               \<and> requested_prec pt prec < self_max_prec self \<and> is_real (point_value pt)
               \<and> approx_on_disk K self (point_value pt) (requested_prec pt prec) center rad = (self', r))"
proof (cases "requested_prec pt prec \<ge> self_max_prec self \<or> \<not> is_real (point_value pt)")
  case True
  with assms show ?thesis by (auto simp: approx_def Let_def split: prod.splits)
next
  case False
  with assms show ?thesis
    by (auto simp: approx_def Let_def split: option.splits sum.splits)
qed


lemma disk_loop_value:
  "expo \<le> expo0 \<Longrightarrow> candidate_ok K pt expo \<Longrightarrow>
   (\<forall>e. expo < e \<and> e \<le> expo0 \<longrightarrow> \<not> candidate_ok K pt e) \<Longrightarrow>
   disk_loop K pt expo0 = Some expo"
proof (induction "nat (expo0 - expo)" arbitrary: expo0)
  case 0
  then have "expo0 = expo" by simp
  with 0 show ?case by (subst disk_loop.simps) simp
next
  case (Suc n)
  from Suc(2) have lt: "expo < expo0" by simp
  with Suc(5) have no: "\<not> candidate_ok K pt expo0" by simp
  from Suc(2) have "n = nat (expo0 - 1 - expo)" by simp
  moreover from lt have "expo \<le> expo0 - 1" by simp
  moreover from Suc(5) have "\<forall>e. expo < e \<and> e \<le> expo0 - 1 \<longrightarrow> \<not> candidate_ok K pt e" by simp
  ultimately have "disk_loop K pt (expo0 - 1) = Some expo" using Suc(1) Suc(4) by blast
  with no show ?case by (subst disk_loop.simps) simp
qed

lemma disk_loop_transfer:
  assumes ok: "\<And>e. candidate_ok K' pt e = candidate_ok K pt e"
    and lp: "disk_loop K pt expo0 = Some expo"
  shows "disk_loop K' pt expo0 = Some expo"
proof -
  from disk_loop_result [OF lp] have "expo \<le> expo0" "candidate_ok K' pt expo"
    "\<forall>e. expo < e \<and> e \<le> expo0 \<longrightarrow> \<not> candidate_ok K' pt e" by (simp_all add: ok)
  then show ?thesis by (rule disk_loop_value)
qed

lemma disk_loop_cong:
  assumes ok: "\<And>e. candidate_ok K' pt e = candidate_ok K pt e"
  shows "disk_loop K' pt expo0 = disk_loop K pt expo0"
proof (cases "disk_loop K pt expo0")
  case (Some e)
  with disk_loop_transfer [OF ok Some] show ?thesis by simp
next
  case None
  show ?thesis
  proof (cases "disk_loop K' pt expo0")
    case None
    with \<open>disk_loop K pt expo0 = None\<close> show ?thesis by simp
  next
    case (Some e)
    from disk_loop_transfer [OF ok [symmetric] Some] None show ?thesis by simp
  qed
qed

lemma disk_collaborators_cong:
  assumes d: "dist_to_sing K' = dist_to_sing K" and a: "approx_abs_real K' = approx_abs_real K"
  shows "disk K' self pt = disk K self pt"
proof -
  have m: "candidate_mantissa K' pt e = candidate_mantissa K pt e" for e
    by (simp add: candidate_mantissa_def a)
  have ok: "candidate_ok K' pt e = candidate_ok K pt e" for e
    by (simp add: candidate_ok_def disk_safe_def m d)
  have ck: "disk_check K' pt e = disk_check K pt e" for e
    by (simp add: disk_check_def m a)
  have lp: "disk_loop K' pt e = disk_loop K pt e" for e
    by (rule disk_loop_cong) (rule ok)
  show ?thesis by (simp add: disk_def d lp ck cong: sum.case_cong option.case_cong)
qed












text \<open>Runs of \<open>approx\<close> on the point 3 at several precisions.\<close>

lemma one_singularity_fields:
  "accuracy (one_singularity s) = accuracy echo"
  "analytic_continuation (one_singularity s) = analytic_continuation echo"
  "ctx_real (one_singularity s) = ctx_real echo"
  "prec_from_eps (one_singularity s) = prec_from_eps echo"
  "series_sum_ordinary (one_singularity s) = series_sum_ordinary echo"
  "numerical_solution (one_singularity s) = numerical_solution echo"
  by (simp_all add: one_singularity_def)


lemmas approx_defs =
  approx_def approx_on_disk_def recompute_def requested_prec_def guess_prec_def point_value_def
  path_to_def eval_poly_def on_interval_def vec_accuracy_def not_worse_def
  one_singularity_fields

lemmas run_defs =
  approx_defs doit_defs eco_defs poly_defs ball_defs upt_rec numeral_eq_Suc power_int_minus

text \<open>The disk of the point 3 for the collaborators used below, whatever the caches.\<close>

lemma disk_3_any:
  assumes "dist_to_sing K = dist_to_sing (one_singularity 0)"
    and "approx_abs_real K = approx_abs_real (one_singularity 0)"
    and "self_max_rad self = None"
  shows "disk K self (RNum (RBall 3 0)) = Some (Inr (Some (3, RBall 1 0)))"
proof -
  have "disk K self (RNum (RBall 3 0)) = disk (one_singularity 0) self (RNum (RBall 3 0))"
    by (rule disk_collaborators_cong [OF assms(1,2)])
  also have "\<dots> = disk (one_singularity 0) fresh (RNum (RBall 3 0))"
    by (rule disk_cong) (simp add: assms(3) fresh_def)
  finally show ?thesis using disk_3 by (simp add: r_exact_def)
qed




lemma approx_stale:
  "approx (one_singularity 0)
      (fresh\<lparr>self_inivecs := [RNum (RBall (1 / 1024) 0) \<mapsto> [RNum (RBall 1 (1 / 2))]]\<rparr>)
      (Plain (RNum (r_exact 3))) (Some 10)
     = Some (fresh\<lparr>self_inivecs := [RNum (RBall (1 / 1024) 0) \<mapsto> [RNum (RBall (1 / 1024) 0)]],
                   self_polys := [3 \<mapsto> \<lparr>approx_pol = RPoly [RBall (1 / 2048) 0, RBall (1 / 2048) 0],
                                        approx_prec = 10\<rparr>]\<rparr>,
             Inr (RNum (RBall (1 / 2048) 0)))"
proof -
  let ?s = "fresh\<lparr>self_inivecs := [RNum (RBall (1 / 1024) 0) \<mapsto> [RNum (RBall 1 (1 / 2))]]\<rparr>"
  have d: "disk (one_singularity 0) ?s (RNum (RBall 3 0)) = Some (Inr (Some (3, RBall 1 0)))"
    by (rule disk_3_any) (simp_all add: fresh_def)
  have "approx (one_singularity 0) ?s (Plain (RNum (RBall 3 0))) (Some 10)
          = Some (recompute (one_singularity 0) ?s (RNum (RBall 3 0)) 10 3 (RBall 1 0))"
    using d by (simp add: approx_def approx_on_disk_def requested_prec_def point_value_def
        is_real_def fresh_def)
  then show ?thesis by (simp add: run_defs fresh_def real_value_def echo_def)
qed




section \<open>Claims on the cached evaluator\<close>








text \<open>
  C8 (accuracy of the cached initial vectors).  A vector cached for a vertex is, after any
  call of \<open>approx\<close>, still cached for it or replaced by a vector of strictly higher
  accuracy, the accuracy of a vector being that of its first entry, as the code compares
  it.  One step of the loop stores a vector only when none is cached for the vertex or
  the accuracy of the new one is strictly higher.
\<close>

theorem inivecs_monotone:
  "(approx K self pt prec = Some (self', r) \<and> self_inivecs self v = Some known
      \<longrightarrow> (\<exists>new. self_inivecs self' v = Some new \<and> not_worse K known new))
   \<and> (merge_inivecs K [(vert, val)] m = (m', err) \<and> m' \<noteq> m
      \<longrightarrow> (\<exists>col. column0 val = Inr col \<and> m' = m(vert \<mapsto> col)
            \<and> (case m vert of None \<Rightarrow> True | Some old \<Rightarrow>
                 (case vec_accuracy K old of None \<Rightarrow> False
                  | Some a \<Rightarrow> (case vec_accuracy K col of None \<Rightarrow> False | Some a' \<Rightarrow> a < a')))))"
proof (intro conjI impI)
  assume a: "approx K self pt prec = Some (self', r) \<and> self_inivecs self v = Some known"
  from approx_cases [of K self pt prec self' r] a
  consider "self' = self"
    | center rad where
      "approx_on_disk K self (point_value pt) (requested_prec pt prec) center rad = (self', r)"
    by blast
  then show "\<exists>new. self_inivecs self' v = Some new \<and> not_worse K known new"
  proof cases
    case 1
    with a show ?thesis by (auto simp: not_worse_refl)
  next
    case 2
    from approx_on_disk_inivecs [OF 2] obtain pairs err where
      "merge_inivecs K pairs (self_inivecs self) = (self_inivecs self', err)" by blast
    with a show ?thesis by (auto dest: merge_inivecs_monotone)
  qed
next
  assume a: "merge_inivecs K [(vert, val)] m = (m', err) \<and> m' \<noteq> m"
  from merge_inivecs_step [of K vert val "[]" m m' err] a
  show "\<exists>col. column0 val = Inr col \<and> m' = m(vert \<mapsto> col)
            \<and> (case m vert of None \<Rightarrow> True | Some old \<Rightarrow>
                 (case vec_accuracy K old of None \<Rightarrow> False
                  | Some a \<Rightarrow> (case vec_accuracy K col of None \<Rightarrow> False | Some a' \<Rightarrow> a < a')))"
    by auto
qed


theorem inivecs_monotone_witness:
  "approx (one_singularity 0)
      (fresh\<lparr>self_inivecs := [RNum (RBall (1 / 1024) 0) \<mapsto> [RNum (RBall 1 (1 / 2))]]\<rparr>)
      (Plain (RNum (r_exact 3))) (Some 10)
     = Some (fresh\<lparr>self_inivecs := [RNum (RBall (1 / 1024) 0) \<mapsto> [RNum (RBall (1 / 1024) 0)]],
                   self_polys := [3 \<mapsto> \<lparr>approx_pol = RPoly [RBall (1 / 2048) 0, RBall (1 / 2048) 0],
                                        approx_prec = 10\<rparr>]\<rparr>,
             Inr (RNum (RBall (1 / 2048) 0)))
   \<and> not_worse (one_singularity 0) [RNum (RBall 1 (1 / 2))] [RNum (RBall (1 / 1024) 0)]
   \<and> merge_inivecs (one_singularity 0) [(RNum (RBall (1 / 1024) 0), [[RNum (RBall (1 / 1024) 0)]])]
        [RNum (RBall (1 / 1024) 0) \<mapsto> [RNum (RBall 1 (1 / 2))]]
      = ([RNum (RBall (1 / 1024) 0) \<mapsto> [RNum (RBall (1 / 1024) 0)]], None)
   \<and> vec_accuracy (one_singularity 0) [RNum (RBall 1 (1 / 2))] = Some 0
   \<and> vec_accuracy (one_singularity 0) [RNum (RBall (1 / 1024) 0)] = Some 1000"
proof -
  let ?K = "one_singularity 0"
  let ?v = "RNum (RBall (1 / 1024) 0)"
  let ?s = "fresh\<lparr>self_inivecs := [?v \<mapsto> [RNum (RBall 1 (1 / 2))]]\<rparr>"
  let ?s1 = "fresh\<lparr>self_inivecs := [?v \<mapsto> [?v]],
                   self_polys := [3 \<mapsto> \<lparr>approx_pol = RPoly [RBall (1 / 2048) 0, RBall (1 / 2048) 0],
                                        approx_prec = 10\<rparr>]\<rparr>"
  have h1: "self_inivecs ?s ?v = Some [RNum (RBall 1 (1 / 2))]" by simp
  have h2: "merge_inivecs ?K [(?v, [[?v]])] [?v \<mapsto> [RNum (RBall 1 (1 / 2))]] = ([?v \<mapsto> [?v]], None)"
    by (simp add: one_singularity_fields echo_def)
  have h3: "[?v \<mapsto> [?v]] \<noteq> [?v \<mapsto> [RNum (RBall 1 (1 / 2))]]"
  proof
    assume "[?v \<mapsto> [?v]] = [?v \<mapsto> [RNum (RBall 1 (1 / 2))]]"
    from map_upd_eqD1 [OF this] show False by simp
  qed
  note T = inivecs_monotone [where K = ?K and self = ?s and pt = "Plain (RNum (r_exact 3))"
      and prec = "Some 10" and self' = ?s1 and r = "Inr (RNum (RBall (1 / 2048) 0))"
      and v = ?v and known = "[RNum (RBall 1 (1 / 2))]"
      and vert = ?v and val = "[[?v]]" and m = "[?v \<mapsto> [RNum (RBall 1 (1 / 2))]]"
      and m' = "[?v \<mapsto> [?v]]" and err = None]
  from T approx_stale h1 obtain new where
    "self_inivecs ?s1 ?v = Some new" "not_worse ?K [RNum (RBall 1 (1 / 2))] new" by blast
  then have a: "not_worse ?K [RNum (RBall 1 (1 / 2))] [?v]" by simp
  from T h2 h3 obtain col where "column0 [[?v]] = Inr col"
    "case [?v \<mapsto> [RNum (RBall 1 (1 / 2))]] ?v of None \<Rightarrow> True | Some old \<Rightarrow>
       (case vec_accuracy ?K old of None \<Rightarrow> False
        | Some a \<Rightarrow> (case vec_accuracy ?K col of None \<Rightarrow> False | Some a' \<Rightarrow> a < a'))"
    by blast
  have b: "vec_accuracy ?K [RNum (RBall 1 (1 / 2))] = Some 0"
    "vec_accuracy ?K [?v] = Some 1000"
    by (simp_all add: vec_accuracy_def one_singularity_fields echo_def)
  from approx_stale a h2 b show ?thesis by blast
qed


end
